theory Spec2Isabelle
  imports Main "HOL-Library.Word"
begin

unbundle bit_operations_syntax

section \<open>RSA PKCS#1 v1.5 padding template (crypto/rsa-pkcs1pad.c)\<close>

text \<open>
  The C types: \<open>u8\<close> is an 8-bit word, \<open>unsigned int\<close> a 32-bit word (subtraction and
  addition wrap around), an \<open>int\<close> status code is a HOL integer (status codes are only
  compared and passed on, never computed with), with 0 for success and \<open>- E\<close> for the
  error \<open>E\<close>.
\<close>

type_synonym u8 = "8 word"
type_synonym u32 = "32 word"

subsection \<open>Constants of the kernel headers\<close>

text \<open>
  Modelled from the spec: the errno macros (include/uapi/asm-generic/errno*.h,
  include/linux/errno.h) are not part of the source file. The spec names the codes
  \<^emph>\<open>invalid\<close>, \<^emph>\<open>overflow\<close>, \<^emph>\<open>out-of-memory\<close>, \<^emph>\<open>not-supported\<close>, \<^emph>\<open>bad-message\<close>,
  \<^emph>\<open>in-progress\<close> and \<^emph>\<open>busy\<close>; the values are the ones of Linux.
\<close>

definition ENOMEM :: int where "ENOMEM = 12"
definition EBUSY :: int where "EBUSY = 16"
definition EINVAL :: int where "EINVAL = 22"
definition EBADMSG :: int where "EBADMSG = 74"
definition EOVERFLOW :: int where "EOVERFLOW = 75"
definition EINPROGRESS :: int where "EINPROGRESS = 115"
definition ENOTSUPP :: int where "ENOTSUPP = 524"

text \<open>
  Modelled from the spec: the request flags \<^emph>\<open>may-sleep\<close> and \<^emph>\<open>may-backlog\<close> are the
  macros of include/linux/crypto.h, not part of the source file; the values are the ones
  of Linux.
\<close>

definition CRYPTO_TFM_REQ_MAY_SLEEP :: u32 where "CRYPTO_TFM_REQ_MAY_SLEEP = 0x200"
definition CRYPTO_TFM_REQ_MAY_BACKLOG :: u32 where "CRYPTO_TFM_REQ_MAY_BACKLOG = 0x400"

datatype gfp = GFP_KERNEL | GFP_ATOMIC

subsection \<open>Hash algorithm OIDs plus ASN.1 DER wrappings\<close>

text \<open>Each array is written in the three lines it has in the source: header, OID, end.\<close>

definition rsa_digest_info_md5 :: "u8 list" where
  "rsa_digest_info_md5 =
    [0x30, 0x20, 0x30, 0x0c, 0x06, 0x08] @
     [0x2a, 0x86, 0x48, 0x86, 0xf7, 0x0d, 0x02, 0x05] @
     [0x05, 0x00, 0x04, 0x10]"

definition rsa_digest_info_sha1 :: "u8 list" where
  "rsa_digest_info_sha1 =
    [0x30, 0x21, 0x30, 0x09, 0x06, 0x05] @
     [0x2b, 0x0e, 0x03, 0x02, 0x1a] @
     [0x05, 0x00, 0x04, 0x14]"

definition rsa_digest_info_rmd160 :: "u8 list" where
  "rsa_digest_info_rmd160 =
    [0x30, 0x21, 0x30, 0x09, 0x06, 0x05] @
     [0x2b, 0x24, 0x03, 0x02, 0x01] @
     [0x05, 0x00, 0x04, 0x14]"

definition rsa_digest_info_sha224 :: "u8 list" where
  "rsa_digest_info_sha224 =
    [0x30, 0x2d, 0x30, 0x0d, 0x06, 0x09] @
     [0x60, 0x86, 0x48, 0x01, 0x65, 0x03, 0x04, 0x02, 0x04] @
     [0x05, 0x00, 0x04, 0x1c]"

definition rsa_digest_info_sha256 :: "u8 list" where
  "rsa_digest_info_sha256 =
    [0x30, 0x31, 0x30, 0x0d, 0x06, 0x09] @
     [0x60, 0x86, 0x48, 0x01, 0x65, 0x03, 0x04, 0x02, 0x01] @
     [0x05, 0x00, 0x04, 0x20]"

definition rsa_digest_info_sha384 :: "u8 list" where
  "rsa_digest_info_sha384 =
    [0x30, 0x41, 0x30, 0x0d, 0x06, 0x09] @
     [0x60, 0x86, 0x48, 0x01, 0x65, 0x03, 0x04, 0x02, 0x02] @
     [0x05, 0x00, 0x04, 0x30]"

definition rsa_digest_info_sha512 :: "u8 list" where
  "rsa_digest_info_sha512 =
    [0x30, 0x51, 0x30, 0x0d, 0x06, 0x09] @
     [0x60, 0x86, 0x48, 0x01, 0x65, 0x03, 0x04, 0x02, 0x03] @
     [0x05, 0x00, 0x04, 0x40]"

record rsa_asn1_template =
  tmpl_name :: string
  tmpl_data :: "u8 list"
  tmpl_size :: nat

text \<open>The macro \<open>_(X)\<close>: the name, the array and \<open>sizeof\<close> of the array.\<close>

definition asn1_entry :: "string \<Rightarrow> u8 list \<Rightarrow> rsa_asn1_template" where
  "asn1_entry n d = \<lparr>tmpl_name = n, tmpl_data = d, tmpl_size = length d\<rparr>"

definition rsa_asn1_templates :: "rsa_asn1_template list" where
  "rsa_asn1_templates =
    [asn1_entry ''md5'' rsa_digest_info_md5,
     asn1_entry ''sha1'' rsa_digest_info_sha1,
     asn1_entry ''rmd160'' rsa_digest_info_rmd160,
     asn1_entry ''sha256'' rsa_digest_info_sha256,
     asn1_entry ''sha384'' rsa_digest_info_sha384,
     asn1_entry ''sha512'' rsa_digest_info_sha512,
     asn1_entry ''sha224'' rsa_digest_info_sha224]"

text \<open>
  The loop of \<open>rsa_lookup_asn1\<close> over the table, up to the terminating entry with a
  null name: the first entry whose name compares equal, or \<open>None\<close> for \<open>NULL\<close>.
\<close>

fun rsa_lookup_from :: "rsa_asn1_template list \<Rightarrow> string \<Rightarrow> rsa_asn1_template option" where
  "rsa_lookup_from [] name = None"
| "rsa_lookup_from (p # ps) name =
     (if name = tmpl_name p then Some p else rsa_lookup_from ps name)"

definition rsa_lookup_asn1 :: "string \<Rightarrow> rsa_asn1_template option" where
  "rsa_lookup_asn1 name = rsa_lookup_from rsa_asn1_templates name"

subsection \<open>The inner engine\<close>

text \<open>
  The request handed to the inner engine. Its source is a scatterlist; the model keeps
  the logical byte stream the chain describes. Its destination is the scatterlist over
  \<open>out_buf\<close>, so the engine's output is kept in \<open>out_buf\<close> of the outer request.
\<close>

record child_request =
  c_src :: "u8 list"
  c_src_len :: u32
  c_dst_len :: u32
  c_flags :: u32

text \<open>
  What one call of the inner engine does: the status it returns, the bytes it stores at
  the start of the destination and the \<open>dst_len\<close> it leaves in its request. When the
  engine works asynchronously the bytes are those that are in place when it calls back.
\<close>

record child_reply =
  r_err :: int
  r_out :: "u8 list"
  r_dst_len :: u32

text \<open>
  The inner transform is external: \<open>'c\<close> is its state (the installed key), the fields are
  the entry points \<open>crypto_akcipher_*\<close> that the padding layer calls. The reply of
  \<open>crypto_akcipher_maxsize\<close> is a C \<open>int\<close> that is converted to \<open>unsigned int\<close>, so it is a
  32-bit word, read in two's complement (\<open>sint\<close>, \<open><s\<close>) where the code reads the \<open>int\<close>.
\<close>

record 'c akcipher_alg =
  crypto_akcipher_set_pub_key :: "'c \<Rightarrow> u8 list \<Rightarrow> int \<times> 'c"
  crypto_akcipher_set_priv_key :: "'c \<Rightarrow> u8 list \<Rightarrow> int \<times> 'c"
  crypto_akcipher_maxsize :: "'c \<Rightarrow> u32"
  crypto_akcipher_encrypt :: "'c \<Rightarrow> child_request \<Rightarrow> child_reply"
  crypto_akcipher_decrypt :: "'c \<Rightarrow> child_request \<Rightarrow> child_reply"
  crypto_akcipher_sign :: "'c \<Rightarrow> child_request \<Rightarrow> child_reply"
  crypto_akcipher_verify :: "'c \<Rightarrow> child_request \<Rightarrow> child_reply"

subsection \<open>Transform context and key installation\<close>

record 'c pkcs1pad_ctx =
  child :: 'c
  hash_name :: "string option"
  key_size :: u32

definition pkcs1pad_set_pub_key ::
  "'c akcipher_alg \<Rightarrow> 'c pkcs1pad_ctx \<Rightarrow> u8 list \<Rightarrow> int \<times> 'c pkcs1pad_ctx" where
  "pkcs1pad_set_pub_key A ctx key =
    (let (err, c) = crypto_akcipher_set_pub_key A (child ctx) key;
         ctx1 = ctx\<lparr>child := c\<rparr>
     in if err = 0 then
          (let size = crypto_akcipher_maxsize A c;
               ctx2 = ctx1\<lparr>key_size := (if 0 <s size then size else 0)\<rparr>
           in if size \<le>s 0 then (sint size, ctx2) else (err, ctx2))
        else (err, ctx1))"

definition pkcs1pad_set_priv_key ::
  "'c akcipher_alg \<Rightarrow> 'c pkcs1pad_ctx \<Rightarrow> u8 list \<Rightarrow> int \<times> 'c pkcs1pad_ctx" where
  "pkcs1pad_set_priv_key A ctx key =
    (let (err, c) = crypto_akcipher_set_priv_key A (child ctx) key;
         ctx1 = ctx\<lparr>child := c\<rparr>
     in if err = 0 then
          (let size = crypto_akcipher_maxsize A c;
               ctx2 = ctx1\<lparr>key_size := (if 0 <s size then size else 0)\<rparr>
           in if size \<le>s 0 then (sint size, ctx2) else (err, ctx2))
        else (err, ctx1))"

definition pkcs1pad_get_max_size :: "'c pkcs1pad_ctx \<Rightarrow> int" where
  "pkcs1pad_get_max_size ctx =
    (if key_size ctx \<noteq> 0 then sint (key_size ctx) else - EINVAL)"

subsection \<open>Kernel services\<close>

text \<open>
  The services of the kernel the file relies on are parameters of the model:
  \<open>PAGE_SIZE\<close> (a macro of the architecture), whether an allocation succeeds
  (\<open>kmalloc_ok\<close>, by the moment of the call, the size and the flags), the bytes that an
  allocated buffer holds before it is written (\<open>heap_garbage\<close>), and the raw 32-bit draws
  of the pseudo-random generator, in the order they are taken (\<open>prandom_u32\<close>).
\<close>

record kernel_env =
  PAGE_SIZE :: nat
  kmalloc_ok :: "nat \<Rightarrow> nat \<Rightarrow> gfp \<Rightarrow> bool"
  heap_garbage :: "nat \<Rightarrow> nat \<Rightarrow> u8"
  prandom_u32 :: "nat \<Rightarrow> u32"

definition kmalloc :: "kernel_env \<Rightarrow> nat \<Rightarrow> nat \<Rightarrow> gfp \<Rightarrow> u8 list option" where
  "kmalloc env t n g =
    (if kmalloc_ok env t n g then Some (map (heap_garbage env t) [0..<n]) else None)"

text \<open>
  Modelled from the spec: \<open>prandom_u32_max\<close> is an inline function of
  include/linux/random.h, not part of the source file. The spec says that the generator
  is bounded, so that one plus its result lies in [1, 255] for the bound 255; the kernel
  scales a raw 32-bit draw \<open>r\<close> into \<open>[0, ep_ro)\<close> by \<open>(u64) r * ep_ro >> 32\<close>.
\<close>

definition prandom_u32_max :: "u32 \<Rightarrow> u32 \<Rightarrow> u32" where
  "prandom_u32_max ep_ro r = of_nat ((unat r * unat ep_ro) div 2 ^ 32)"

subsection \<open>Buffers\<close>

text \<open>
  A buffer is the list of its bytes. An access outside the buffer is undefined
  behaviour in C; the model makes it the result \<open>None\<close>, which every caller passes on.
\<close>

definition buf_get :: "u8 list \<Rightarrow> u32 \<Rightarrow> u8 option" where
  "buf_get buf i = (if unat i < length buf then Some (buf ! unat i) else None)"

definition buf_set :: "u8 list \<Rightarrow> u32 \<Rightarrow> u8 \<Rightarrow> u8 list option" where
  "buf_set buf i v = (if unat i < length buf then Some (buf[unat i := v]) else None)"

definition memset :: "u8 list \<Rightarrow> nat \<Rightarrow> u8 \<Rightarrow> nat \<Rightarrow> u8 list option" where
  "memset buf off v n =
    (if off + n \<le> length buf then Some (take off buf @ replicate n v @ drop (off + n) buf)
     else None)"

definition memcpy :: "u8 list \<Rightarrow> nat \<Rightarrow> u8 list \<Rightarrow> nat \<Rightarrow> u8 list option" where
  "memcpy buf off data n =
    (if off + n \<le> length buf \<and> n \<le> length data
     then Some (take off buf @ take n data @ drop (off + n) buf)
     else None)"

text \<open>
  Modelled from the spec: \<open>memcmp\<close> is a function of lib/string.c, not part of the
  source file. The spec has the DigestInfo prefix compared byte for byte; the kernel's
  loop reads one byte of each area at a time, \<open>n\<close> times, and stops at the first pair
  that differs. \<open>memcmp_eq\<close> is \<open>memcmp(buf + off, data, n) == 0\<close>. It is \<open>None\<close>
  only when the loop leaves a buffer before it has found a difference.
\<close>

fun memcmp_eq :: "u8 list \<Rightarrow> nat \<Rightarrow> u8 list \<Rightarrow> nat \<Rightarrow> bool option" where
  "memcmp_eq buf off data 0 = Some True"
| "memcmp_eq buf off [] (Suc n) = None"
| "memcmp_eq buf off (d # data) (Suc n) =
    (if off < length buf then
       (if buf ! off = d then memcmp_eq buf (off + 1) data n else Some False)
     else None)"

text \<open>
  Scatterlists are kept as the byte stream they describe. \<open>pkcs1pad_sg_set_buf\<close> makes a
  list over \<open>len\<close> bytes of \<open>buf\<close>, in one or two segments (which of the two depends on
  the address of \<open>buf\<close> only), and chains \<open>next\<close> behind it.
\<close>

definition pkcs1pad_sg_set_buf :: "u8 list \<Rightarrow> nat \<Rightarrow> u8 list \<Rightarrow> u8 list" where
  "pkcs1pad_sg_set_buf buf len nxt = take len buf @ nxt"

text \<open>
  \<open>sg_pcopy_from_buffer\<close> copies \<open>buflen\<close> bytes of \<open>buf\<close> into the list \<open>sgl\<close> from
  offset \<open>skip\<close> on and stops where the list ends.
\<close>

definition sg_pcopy_from_buffer :: "u8 list \<Rightarrow> u8 list \<Rightarrow> nat \<Rightarrow> nat \<Rightarrow> u8 list option" where
  "sg_pcopy_from_buffer sgl buf buflen skip =
    (let n = min buflen (length sgl - skip)
     in if n \<le> length buf then Some (take skip sgl @ take n buf @ drop (skip + n) sgl)
        else None)"

definition sg_copy_from_buffer :: "u8 list \<Rightarrow> u8 list \<Rightarrow> nat \<Rightarrow> u8 list option" where
  "sg_copy_from_buffer sgl buf buflen = sg_pcopy_from_buffer sgl buf buflen 0"

subsection \<open>Requests\<close>

datatype akcipher_op = Encrypt | Decrypt | Sign | Verify

text \<open>
  The effects that are not a value in the request are logged in \<open>trace\<close>: an allocation
  (with its size), a release, a call of the inner engine (with the request it gets), and
  the call of the caller's completion function (with the status).
\<close>

datatype event =
    Kmalloc nat gfp
  | Kfree
  | Kzfree
  | Child_call akcipher_op child_request
  | Base_complete int

record akcipher_request =
  src :: "u8 list"
  src_len :: u32
  dst :: "u8 list"
  dst_len :: u32
  base_flags :: u32

text \<open>
  \<open>struct pkcs1pad_request\<close> lives in the context area of the request. A buffer pointer is
  \<open>None\<close> when nothing is allocated behind it.
\<close>

record pkcs1pad_request = akcipher_request +
  child_req :: child_request
  in_buf :: "u8 list option"
  out_buf :: "u8 list option"
  trace :: "event list"

definition gfp_of :: "u32 \<Rightarrow> gfp" where
  "gfp_of flags = (if flags AND CRYPTO_TFM_REQ_MAY_SLEEP \<noteq> 0 then GFP_KERNEL else GFP_ATOMIC)"

text \<open>
  The effect of the inner engine on the request: it stores its output at the start of
  \<open>out_buf\<close> (never beyond the list it was given) and sets \<open>child_req.dst_len\<close>.
\<close>

definition child_done :: "pkcs1pad_request \<Rightarrow> akcipher_op \<Rightarrow> child_reply \<Rightarrow> pkcs1pad_request" where
  "child_done st opn reply =
    st\<lparr>child_req := (child_req st)\<lparr>c_dst_len := r_dst_len reply\<rparr>,
       out_buf := map_option
         (\<lambda>b. take (length b) (r_out reply @ drop (length (r_out reply)) b)) (out_buf st),
       trace := trace st @ [Child_call opn (child_req st)]\<rparr>"

text \<open>The outcome of the part of an operation that precedes the call of the inner engine.\<close>

datatype prepared = Crash | Early int pkcs1pad_request | Ready (ready_req: pkcs1pad_request)

subsection \<open>Encrypt and sign\<close>

definition pkcs1pad_encrypt_sign_complete ::
  "'c pkcs1pad_ctx \<Rightarrow> pkcs1pad_request \<Rightarrow> int \<Rightarrow> (int \<times> pkcs1pad_request) option" where
  "pkcs1pad_encrypt_sign_complete ctx req err =
    (let pad_len = key_size ctx - c_dst_len (child_req req);
         copied =
           (if err = 0 then
              Option.bind
                (if pad_len \<noteq> 0 then memset (dst req) 0 0 (unat pad_len) else Some (dst req))
                (\<lambda>d. case out_buf req of None \<Rightarrow> None
                      | Some out \<Rightarrow>
                          sg_pcopy_from_buffer d out (unat (c_dst_len (child_req req))) (unat pad_len))
            else Some (dst req))
     in case copied of None \<Rightarrow> None
        | Some d \<Rightarrow>
            Some (err, req\<lparr>dst := d, dst_len := key_size ctx, in_buf := None, out_buf := None,
                           trace := trace req @ [Kfree, Kzfree]\<rparr>))"

definition pkcs1pad_encrypt_sign_complete_cb ::
  "'c pkcs1pad_ctx \<Rightarrow> pkcs1pad_request \<Rightarrow> int \<Rightarrow> pkcs1pad_request option" where
  "pkcs1pad_encrypt_sign_complete_cb ctx req err =
    (if err = - EINPROGRESS then Some req
     else case pkcs1pad_encrypt_sign_complete ctx req err of None \<Rightarrow> None
          | Some (e, req') \<Rightarrow> Some (req'\<lparr>trace := trace req' @ [Base_complete e]\<rparr>))"

text \<open>The loop \<open>for (i = 1; i < ps_end; i++) in_buf[i] = 1 + prandom_u32_max(255)\<close>.\<close>

function fill_ps :: "kernel_env \<Rightarrow> u32 \<Rightarrow> u32 \<Rightarrow> u8 list \<Rightarrow> u8 list option" where
  "fill_ps env i ps_end buf =
    (if i < ps_end then
       (case buf_set buf i (ucast (1 + prandom_u32_max 255 (prandom_u32 env (unat i - 1)))) of
          None \<Rightarrow> None
        | Some buf' \<Rightarrow> fill_ps env (i + 1) ps_end buf')
     else Some buf)"
  by pat_completeness auto
termination
  by (relation "measure (\<lambda>(env, i, ps_end, buf). unat ps_end - unat i)")
     (simp, clarsimp, unat_arith)

declare fill_ps.simps [simp del]

text \<open>
  \<open>pkcs1pad_encrypt\<close> up to the call of the inner engine: the checks, the two buffers
  and the request for the inner engine.
\<close>

definition pkcs1pad_encrypt_setup ::
  "kernel_env \<Rightarrow> 'c pkcs1pad_ctx \<Rightarrow> pkcs1pad_request \<Rightarrow> prepared" where
  "pkcs1pad_encrypt_setup env ctx req =
    (if key_size ctx = 0 then Early (- EINVAL) req
     else if src_len req > key_size ctx - 11 then Early (- EOVERFLOW) req
     else if dst_len req < key_size ctx then Early (- EOVERFLOW) (req\<lparr>dst_len := key_size ctx\<rparr>)
     else if unat (key_size ctx) > PAGE_SIZE env then Early (- ENOTSUPP) req
     else
       let st1 = req\<lparr>child_req :=
                   (child_req req)\<lparr>c_src_len := key_size ctx - 1, c_dst_len := key_size ctx\<rparr>\<rparr>;
           g = gfp_of (base_flags req);
           n = unat (key_size ctx - 1 - src_len req);
           st2 = st1\<lparr>in_buf := kmalloc env (length (trace st1)) n g,
                     trace := trace st1 @ [Kmalloc n g]\<rparr>
       in case in_buf st2 of
            None \<Rightarrow> Early (- ENOMEM) st2
          | Some b \<Rightarrow>
              let ps_end = key_size ctx - src_len req - 2 in
              (case Option.bind (buf_set b 0 0x02)
                      (\<lambda>b1. Option.bind (fill_ps env 1 ps_end b1)
                        (\<lambda>b2. buf_set b2 ps_end 0x00)) of
                 None \<Rightarrow> Crash
               | Some b3 \<Rightarrow>
                   let st3 = st2\<lparr>in_buf := Some b3,
                               child_req :=
                                 (child_req st2)\<lparr>c_src := pkcs1pad_sg_set_buf b3 n (src req)\<rparr>\<rparr>;
                       k = unat (key_size ctx);
                       st4 = st3\<lparr>out_buf := kmalloc env (length (trace st3)) k g,
                                 trace := trace st3 @ [Kmalloc k g]\<rparr>
                   in case out_buf st4 of
                        None \<Rightarrow> Early (- ENOMEM) (st4\<lparr>in_buf := None, trace := trace st4 @ [Kfree]\<rparr>)
                      | Some ob \<Rightarrow>
                          Ready (st4\<lparr>child_req := (child_req st4)\<lparr>c_flags := base_flags req\<rparr>\<rparr>)))"

definition pkcs1pad_encrypt ::
  "kernel_env \<Rightarrow> 'c akcipher_alg \<Rightarrow> 'c pkcs1pad_ctx \<Rightarrow> pkcs1pad_request
    \<Rightarrow> (int \<times> pkcs1pad_request) option" where
  "pkcs1pad_encrypt env A ctx req =
    (case pkcs1pad_encrypt_setup env ctx req of
       Crash \<Rightarrow> None
     | Early e st \<Rightarrow> Some (e, st)
     | Ready st \<Rightarrow>
         let reply = crypto_akcipher_encrypt A (child ctx) (child_req st);
             err = r_err reply;
             st' = child_done st Encrypt reply
         in if err \<noteq> - EINPROGRESS \<and>
               (err \<noteq> - EBUSY \<or> \<not> (base_flags req AND CRYPTO_TFM_REQ_MAY_BACKLOG \<noteq> 0))
            then pkcs1pad_encrypt_sign_complete ctx st' err
            else Some (err, st'))"

text \<open>\<open>pkcs1pad_sign\<close> up to the call of the inner engine.\<close>

definition pkcs1pad_sign_setup ::
  "kernel_env \<Rightarrow> 'c pkcs1pad_ctx \<Rightarrow> pkcs1pad_request \<Rightarrow> prepared" where
  "pkcs1pad_sign_setup env ctx req =
    (let digest_info = (case hash_name ctx of None \<Rightarrow> None | Some h \<Rightarrow> rsa_lookup_asn1 h);
         digest_size = (case digest_info of None \<Rightarrow> 0 | Some di \<Rightarrow> of_nat (tmpl_size di)) :: u32
     in
     if key_size ctx = 0 then Early (- EINVAL) req
     else if hash_name ctx \<noteq> None \<and> digest_info = None then Early (- EINVAL) req
     else if src_len req + digest_size > key_size ctx - 11 then Early (- EOVERFLOW) req
     else if dst_len req < key_size ctx then Early (- EOVERFLOW) (req\<lparr>dst_len := key_size ctx\<rparr>)
     else if unat (key_size ctx) > PAGE_SIZE env then Early (- ENOTSUPP) req
     else
       let st1 = req\<lparr>child_req :=
                   (child_req req)\<lparr>c_src_len := key_size ctx - 1, c_dst_len := key_size ctx\<rparr>\<rparr>;
           g = gfp_of (base_flags req);
           n = unat (key_size ctx - 1 - src_len req);
           st2 = st1\<lparr>in_buf := kmalloc env (length (trace st1)) n g,
                     trace := trace st1 @ [Kmalloc n g]\<rparr>
       in case in_buf st2 of
            None \<Rightarrow> Early (- ENOMEM) st2
          | Some b \<Rightarrow>
              let ps_end = key_size ctx - digest_size - src_len req - 2 in
              (case Option.bind (buf_set b 0 0x01)
                      (\<lambda>b1. Option.bind (memset b1 1 0xff (unat (ps_end - 1)))
                        (\<lambda>b2. Option.bind (buf_set b2 ps_end 0x00)
                          (\<lambda>b3. case digest_info of None \<Rightarrow> Some b3
                                 | Some di \<Rightarrow>
                                     memcpy b3 (unat ps_end + 1) (tmpl_data di) (tmpl_size di)))) of
                 None \<Rightarrow> Crash
               | Some b4 \<Rightarrow>
                   let st3 = st2\<lparr>in_buf := Some b4,
                               child_req :=
                                 (child_req st2)\<lparr>c_src := pkcs1pad_sg_set_buf b4 n (src req)\<rparr>\<rparr>;
                       k = unat (key_size ctx);
                       st4 = st3\<lparr>out_buf := kmalloc env (length (trace st3)) k g,
                                 trace := trace st3 @ [Kmalloc k g]\<rparr>
                   in case out_buf st4 of
                        None \<Rightarrow> Early (- ENOMEM) (st4\<lparr>in_buf := None, trace := trace st4 @ [Kfree]\<rparr>)
                      | Some ob \<Rightarrow>
                          Ready (st4\<lparr>child_req := (child_req st4)\<lparr>c_flags := base_flags req\<rparr>\<rparr>)))"

definition pkcs1pad_sign ::
  "kernel_env \<Rightarrow> 'c akcipher_alg \<Rightarrow> 'c pkcs1pad_ctx \<Rightarrow> pkcs1pad_request
    \<Rightarrow> (int \<times> pkcs1pad_request) option" where
  "pkcs1pad_sign env A ctx req =
    (case pkcs1pad_sign_setup env ctx req of
       Crash \<Rightarrow> None
     | Early e st \<Rightarrow> Some (e, st)
     | Ready st \<Rightarrow>
         let reply = crypto_akcipher_sign A (child ctx) (child_req st);
             err = r_err reply;
             st' = child_done st Sign reply
         in if err \<noteq> - EINPROGRESS \<and>
               (err \<noteq> - EBUSY \<or> \<not> (base_flags req AND CRYPTO_TFM_REQ_MAY_BACKLOG \<noteq> 0))
            then pkcs1pad_encrypt_sign_complete ctx st' err
            else Some (err, st'))"

subsection \<open>Decrypt and verify\<close>

text \<open>The label \<open>done\<close> of both completion functions: wipe and release \<open>out_buf\<close>.\<close>

definition complete_done :: "pkcs1pad_request \<Rightarrow> int \<Rightarrow> (int \<times> pkcs1pad_request) option" where
  "complete_done req err = Some (err, req\<lparr>out_buf := None, trace := trace req @ [Kzfree]\<rparr>)"

text \<open>
  The common end of both completion functions, once the payload starts at \<open>pos\<close>: the
  check of the caller's \<open>dst_len\<close>, its update, the copy and the label \<open>done\<close>.
\<close>

definition complete_copy ::
  "pkcs1pad_request \<Rightarrow> u8 list \<Rightarrow> u32 \<Rightarrow> (int \<times> pkcs1pad_request) option" where
  "complete_copy req out pos =
    (let err = (if dst_len req < c_dst_len (child_req req) - pos then - EOVERFLOW else 0);
         req1 = req\<lparr>dst_len := c_dst_len (child_req req) - pos\<rparr>
     in if err = 0 then
          (case sg_copy_from_buffer (dst req1) (drop (unat pos) out) (unat (dst_len req1)) of
             None \<Rightarrow> None
           | Some d \<Rightarrow> complete_done (req1\<lparr>dst := d\<rparr>) err)
        else complete_done req1 err)"

text \<open>The loop \<open>for (pos = 1; pos < dst_len; pos++) if (out_buf[pos] == 0x00) break\<close>.\<close>

function scan_zero :: "u8 list \<Rightarrow> u32 \<Rightarrow> u32 \<Rightarrow> u32 option" where
  "scan_zero out n pos =
    (if pos < n then
       (case buf_get out pos of
          None \<Rightarrow> None
        | Some b \<Rightarrow> if b = 0x00 then Some pos else scan_zero out n (pos + 1))
     else Some pos)"
  by pat_completeness auto
termination
  by (relation "measure (\<lambda>(out, n, pos). unat n - unat pos)")
     (simp, clarsimp, unat_arith)

declare scan_zero.simps [simp del]

definition pkcs1pad_decrypt_complete ::
  "'c pkcs1pad_ctx \<Rightarrow> pkcs1pad_request \<Rightarrow> int \<Rightarrow> (int \<times> pkcs1pad_request) option" where
  "pkcs1pad_decrypt_complete ctx req err0 =
    (let err = (if err0 = - EOVERFLOW then - EINVAL else err0) in
     if err \<noteq> 0 then complete_done req err
     else if c_dst_len (child_req req) \<noteq> key_size ctx - 1 then complete_done req (- EINVAL)
     else
       (case out_buf req of
          None \<Rightarrow> None
        | Some out \<Rightarrow>
            (case buf_get out 0 of
               None \<Rightarrow> None
             | Some b0 \<Rightarrow>
                 if b0 \<noteq> 0x02 then complete_done req (- EINVAL)
                 else
                   (case scan_zero out (c_dst_len (child_req req)) 1 of
                      None \<Rightarrow> None
                    | Some pos \<Rightarrow>
                        if pos < 9 \<or> pos = c_dst_len (child_req req)
                        then complete_done req (- EINVAL)
                        else complete_copy req out (pos + 1)))))"

definition pkcs1pad_decrypt_complete_cb ::
  "'c pkcs1pad_ctx \<Rightarrow> pkcs1pad_request \<Rightarrow> int \<Rightarrow> pkcs1pad_request option" where
  "pkcs1pad_decrypt_complete_cb ctx req err =
    (if err = - EINPROGRESS then Some req
     else case pkcs1pad_decrypt_complete ctx req err of None \<Rightarrow> None
          | Some (e, req') \<Rightarrow> Some (req'\<lparr>trace := trace req' @ [Base_complete e]\<rparr>))"

text \<open>\<open>pkcs1pad_decrypt\<close> up to the call of the inner engine.\<close>

definition pkcs1pad_decrypt_setup ::
  "kernel_env \<Rightarrow> 'c pkcs1pad_ctx \<Rightarrow> pkcs1pad_request \<Rightarrow> prepared" where
  "pkcs1pad_decrypt_setup env ctx req =
    (if key_size ctx = 0 \<or> src_len req \<noteq> key_size ctx then Early (- EINVAL) req
     else if unat (key_size ctx) > PAGE_SIZE env then Early (- ENOTSUPP) req
     else
       let st1 = req\<lparr>child_req :=
                   (child_req req)\<lparr>c_src := src req, c_src_len := src_len req,
                                   c_dst_len := key_size ctx\<rparr>\<rparr>;
           g = gfp_of (base_flags req);
           k = unat (key_size ctx);
           st2 = st1\<lparr>out_buf := kmalloc env (length (trace st1)) k g,
                     trace := trace st1 @ [Kmalloc k g]\<rparr>
       in case out_buf st2 of
            None \<Rightarrow> Early (- ENOMEM) st2
          | Some ob \<Rightarrow> Ready (st2\<lparr>child_req := (child_req st2)\<lparr>c_flags := base_flags req\<rparr>\<rparr>))"

definition pkcs1pad_decrypt ::
  "kernel_env \<Rightarrow> 'c akcipher_alg \<Rightarrow> 'c pkcs1pad_ctx \<Rightarrow> pkcs1pad_request
    \<Rightarrow> (int \<times> pkcs1pad_request) option" where
  "pkcs1pad_decrypt env A ctx req =
    (case pkcs1pad_decrypt_setup env ctx req of
       Crash \<Rightarrow> None
     | Early e st \<Rightarrow> Some (e, st)
     | Ready st \<Rightarrow>
         let reply = crypto_akcipher_decrypt A (child ctx) (child_req st);
             err = r_err reply;
             st' = child_done st Decrypt reply
         in if err \<noteq> - EINPROGRESS \<and>
               (err \<noteq> - EBUSY \<or> \<not> (base_flags req AND CRYPTO_TFM_REQ_MAY_BACKLOG \<noteq> 0))
            then pkcs1pad_decrypt_complete ctx st' err
            else Some (err, st'))"

text \<open>The loop \<open>for (pos = 1; pos < dst_len; pos++) if (out_buf[pos] != 0xff) break\<close>.\<close>

function scan_ff :: "u8 list \<Rightarrow> u32 \<Rightarrow> u32 \<Rightarrow> u32 option" where
  "scan_ff out n pos =
    (if pos < n then
       (case buf_get out pos of
          None \<Rightarrow> None
        | Some b \<Rightarrow> if b \<noteq> 0xff then Some pos else scan_ff out n (pos + 1))
     else Some pos)"
  by pat_completeness auto
termination
  by (relation "measure (\<lambda>(out, n, pos). unat n - unat pos)")
     (simp, clarsimp, unat_arith)

declare scan_ff.simps [simp del]

definition pkcs1pad_verify_complete ::
  "'c pkcs1pad_ctx \<Rightarrow> pkcs1pad_request \<Rightarrow> int \<Rightarrow> (int \<times> pkcs1pad_request) option" where
  "pkcs1pad_verify_complete ctx req err0 =
    (let err = (if err0 = - EOVERFLOW then - EINVAL else err0) in
     if err \<noteq> 0 then complete_done req err
     else if c_dst_len (child_req req) \<noteq> key_size ctx - 1 then complete_done req (- EINVAL)
     else
       (case out_buf req of
          None \<Rightarrow> None
        | Some out \<Rightarrow>
            (case buf_get out 0 of
               None \<Rightarrow> None
             | Some b0 \<Rightarrow>
                 if b0 \<noteq> 0x01 then complete_done req (- EBADMSG)
                 else
                   (case scan_ff out (c_dst_len (child_req req)) 1 of
                      None \<Rightarrow> None
                    | Some pos \<Rightarrow>
                        if pos < 9 \<or> pos = c_dst_len (child_req req)
                        then complete_done req (- EBADMSG)
                        else
                          (case buf_get out pos of
                             None \<Rightarrow> None
                           | Some bp \<Rightarrow>
                               if bp \<noteq> 0x00 then complete_done req (- EBADMSG)
                               else
                                 (case hash_name ctx of
                                    None \<Rightarrow> complete_copy req out (pos + 1)
                                  | Some h \<Rightarrow>
                                      (case rsa_lookup_asn1 h of
                                         None \<Rightarrow> complete_done req (- EBADMSG)
                                       | Some di \<Rightarrow>
                                           (case memcmp_eq out (unat (pos + 1))
                                                   (tmpl_data di) (tmpl_size di) of
                                              None \<Rightarrow> None
                                            | Some same \<Rightarrow>
                                                if \<not> same then complete_done req (- EBADMSG)
                                                else complete_copy req out
                                                       (pos + 1 + of_nat (tmpl_size di))))))))))"

definition pkcs1pad_verify_complete_cb ::
  "'c pkcs1pad_ctx \<Rightarrow> pkcs1pad_request \<Rightarrow> int \<Rightarrow> pkcs1pad_request option" where
  "pkcs1pad_verify_complete_cb ctx req err =
    (if err = - EINPROGRESS then Some req
     else case pkcs1pad_verify_complete ctx req err of None \<Rightarrow> None
          | Some (e, req') \<Rightarrow> Some (req'\<lparr>trace := trace req' @ [Base_complete e]\<rparr>))"

text \<open>\<open>pkcs1pad_verify\<close> up to the call of the inner engine.\<close>

definition pkcs1pad_verify_setup ::
  "kernel_env \<Rightarrow> 'c pkcs1pad_ctx \<Rightarrow> pkcs1pad_request \<Rightarrow> prepared" where
  "pkcs1pad_verify_setup env ctx req =
    (if key_size ctx = 0 \<or> src_len req < key_size ctx then Early (- EINVAL) req
     else if unat (key_size ctx) > PAGE_SIZE env then Early (- ENOTSUPP) req
     else
       let st1 = req\<lparr>child_req :=
                   (child_req req)\<lparr>c_src := src req, c_src_len := src_len req,
                                   c_dst_len := key_size ctx\<rparr>\<rparr>;
           g = gfp_of (base_flags req);
           k = unat (key_size ctx);
           st2 = st1\<lparr>out_buf := kmalloc env (length (trace st1)) k g,
                     trace := trace st1 @ [Kmalloc k g]\<rparr>
       in case out_buf st2 of
            None \<Rightarrow> Early (- ENOMEM) st2
          | Some ob \<Rightarrow> Ready (st2\<lparr>child_req := (child_req st2)\<lparr>c_flags := base_flags req\<rparr>\<rparr>))"

definition pkcs1pad_verify ::
  "kernel_env \<Rightarrow> 'c akcipher_alg \<Rightarrow> 'c pkcs1pad_ctx \<Rightarrow> pkcs1pad_request
    \<Rightarrow> (int \<times> pkcs1pad_request) option" where
  "pkcs1pad_verify env A ctx req =
    (case pkcs1pad_verify_setup env ctx req of
       Crash \<Rightarrow> None
     | Early e st \<Rightarrow> Some (e, st)
     | Ready st \<Rightarrow>
         let reply = crypto_akcipher_verify A (child ctx) (child_req st);
             err = r_err reply;
             st' = child_done st Verify reply
         in if err \<noteq> - EINPROGRESS \<and>
               (err \<noteq> - EBUSY \<or> \<not> (base_flags req AND CRYPTO_TFM_REQ_MAY_BACKLOG \<noteq> 0))
            then pkcs1pad_verify_complete ctx st' err
            else Some (err, st'))"

subsection \<open>Notions of the specification\<close>

text \<open>
  The padding string that encrypt builds from the first \<open>n\<close> draws of the generator.
\<close>

definition random_ps :: "kernel_env \<Rightarrow> nat \<Rightarrow> u8 list" where
  "random_ps env n = map (\<lambda>j. ucast (1 + prandom_u32_max 255 (prandom_u32 env j))) [0..<n]"

text \<open>
  The specification's condition for leaving a request pending: the inner call returns
  \<^emph>\<open>in-progress\<close>, or it returns \<^emph>\<open>busy\<close> and the request carries the may-backlog flag.
\<close>

definition left_pending :: "u32 \<Rightarrow> int \<Rightarrow> bool" where
  "left_pending flags err \<longleftrightarrow>
    err = - EINPROGRESS \<or> (err = - EBUSY \<and> flags AND CRYPTO_TFM_REQ_MAY_BACKLOG \<noteq> 0)"

text \<open>
  The index at which a scan from index 1 stops: the first index from 1 on, below \<open>n\<close>,
  whose byte does not satisfy \<open>P\<close>, and \<open>n\<close> (or 1, when \<open>n\<close> is 0) when there is
  none. With \<open>P\<close> "is not 0x00" this is the separator that decrypt looks for, with \<open>P\<close>
  "is 0xFF" the end of the padding that verify looks for.
\<close>

definition sep_index :: "(u8 \<Rightarrow> bool) \<Rightarrow> u8 list \<Rightarrow> nat \<Rightarrow> nat" where
  "sep_index P out n = 1 + length (takeWhile P (drop 1 (take n out)))"

text \<open>
  The assumption of the round trip on the inner engine, for a key \<open>c\<close> of \<open>k\<close> bytes:
  whenever encrypt is called on a block of \<open>k - 1\<close> bytes with room for \<open>k\<close> bytes and
  returns 0, it has written at most \<open>k\<close> bytes, and decrypt, called on these bytes
  preceded by zero bytes up to \<open>k\<close> bytes (as \<open>pkcs1pad_encrypt_sign_complete\<close> stores
  them), returns 0 with output length \<open>k - 1\<close> and the block that encrypt was given.
\<close>

definition child_inverts :: "'c akcipher_alg \<Rightarrow> 'c \<Rightarrow> u32 \<Rightarrow> bool" where
  "child_inverts A c k \<longleftrightarrow>
    (\<forall>er. length (c_src er) = unat k - 1 \<and> c_src_len er = k - 1 \<and> c_dst_len er = k \<and>
          r_err (crypto_akcipher_encrypt A c er) = 0 \<longrightarrow>
       unat (r_dst_len (crypto_akcipher_encrypt A c er)) \<le> unat k \<and>
       unat (r_dst_len (crypto_akcipher_encrypt A c er)) \<le>
         length (r_out (crypto_akcipher_encrypt A c er)) \<and>
       (\<forall>dr. c_src dr =
               replicate (unat k - unat (r_dst_len (crypto_akcipher_encrypt A c er))) 0 @
               take (unat (r_dst_len (crypto_akcipher_encrypt A c er)))
                 (r_out (crypto_akcipher_encrypt A c er)) \<and>
             c_src_len dr = k \<and> c_dst_len dr = k \<longrightarrow>
          r_err (crypto_akcipher_decrypt A c dr) = 0 \<and>
          r_dst_len (crypto_akcipher_decrypt A c dr) = k - 1 \<and>
          take (unat k - 1) (r_out (crypto_akcipher_decrypt A c dr)) = c_src er))"

subsection \<open>A test engine and test requests\<close>

text \<open>
  An inner engine for concrete runs: its state is the length of the installed key, which
  it reports as its maximum size (an empty key makes it report \<open>- EINVAL\<close>); every
  operation returns the status \<open>e\<close>; encrypt and sign hand back the \<open>src_len\<close> bytes
  of the source unchanged, decrypt and verify drop the leading byte of the source.
\<close>

definition test_alg :: "int \<Rightarrow> nat akcipher_alg" where
  "test_alg e =
    \<lparr>crypto_akcipher_set_pub_key = (\<lambda>c key. (0, length key)),
     crypto_akcipher_set_priv_key = (\<lambda>c key. (0, length key)),
     crypto_akcipher_maxsize = (\<lambda>c. if c = 0 then - 22 else of_nat c),
     crypto_akcipher_encrypt =
       (\<lambda>c r. \<lparr>r_err = e, r_out = take (unat (c_src_len r)) (c_src r),
                r_dst_len = c_src_len r\<rparr>),
     crypto_akcipher_decrypt =
       (\<lambda>c r. \<lparr>r_err = e, r_out = drop 1 (take (unat (c_src_len r)) (c_src r)),
                r_dst_len = c_src_len r - 1\<rparr>),
     crypto_akcipher_sign =
       (\<lambda>c r. \<lparr>r_err = e, r_out = take (unat (c_src_len r)) (c_src r),
                r_dst_len = c_src_len r\<rparr>),
     crypto_akcipher_verify =
       (\<lambda>c r. \<lparr>r_err = e, r_out = drop 1 (take (unat (c_src_len r)) (c_src r)),
                r_dst_len = c_src_len r - 1\<rparr>)\<rparr>"

definition test_env :: kernel_env where
  "test_env =
    \<lparr>PAGE_SIZE = 4096, kmalloc_ok = (\<lambda>t n g. True), heap_garbage = (\<lambda>t i. 0xaa),
     prandom_u32 = (\<lambda>n. 0x9e3779b9 * of_nat n + 0x1234567)\<rparr>"

definition test_ctx :: "u32 \<Rightarrow> string option \<Rightarrow> nat pkcs1pad_ctx" where
  "test_ctx k h = \<lparr>child = unat k, hash_name = h, key_size = k\<rparr>"

text \<open>A fresh request over the source bytes \<open>s\<close> with a destination of \<open>n\<close> bytes.\<close>

definition test_req :: "u8 list \<Rightarrow> nat \<Rightarrow> u32 \<Rightarrow> pkcs1pad_request" where
  "test_req s n fl =
    \<lparr>src = s, src_len = of_nat (length s), dst = replicate n 0, dst_len = of_nat n,
     base_flags = fl,
     child_req = \<lparr>c_src = [], c_src_len = 0, c_dst_len = 0, c_flags = 0\<rparr>,
     in_buf = None, out_buf = None, trace = []\<rparr>"

text \<open>
  A request as the inner engine leaves it after decrypt or verify with a key of \<open>k\<close>
  bytes: \<open>out_buf\<close> holds \<open>out\<close> and the inner \<open>dst_len\<close> is \<open>k - 1\<close>.
\<close>

definition test_out :: "u32 \<Rightarrow> u8 list \<Rightarrow> pkcs1pad_request" where
  "test_out k out =
    (test_req [] (unat k) 0)
      \<lparr>child_req := \<lparr>c_src = [], c_src_len = k, c_dst_len = k - 1, c_flags = 0\<rparr>,
       out_buf := Some out, trace := [Kmalloc (unat k) GFP_ATOMIC]\<rparr>"

text \<open>
  A message of 4294967280 bytes: its length is 0xFFFFFFF0 as an \<open>unsigned int\<close>.
\<close>

definition long_message :: "u8 list" where
  "long_message = replicate 4294967280 0x61"

section \<open>Properties\<close>

subsection \<open>Machine arithmetic\<close>

lemma sint_pos_eq_uint:
  fixes w :: u32
  assumes "0 <s w"
  shows "uint w = sint w"
proof -
  have e: "sint w = uint w - 2 ^ 32 * of_bool (bit (uint w) 31)"
    using uint_lt2p [of w]
    by (simp add: sint_uint signed_take_bit_eq_take_bit_minus take_bit_int_eq_self)
  have "uint w < 2 ^ 32"
    using uint_lt2p [of w] by simp
  with e assms show ?thesis
    by (cases "bit (uint w) 31") (auto simp: word_sless_alt)
qed

subsection \<open>Key installation\<close>

text \<open>
  What both functions do once the inner set-key call has returned 0, by the reply of
  \<open>crypto_akcipher_maxsize\<close>: a positive reply becomes the cached \<open>key_size\<close> (the same
  number) and the status stays 0; a negative reply is returned as the status and the
  cached \<open>key_size\<close> is 0; the reply 0 leaves the cached \<open>key_size\<close> 0 as well, and
  the status is 0.
\<close>

lemma set_key_replies:
  "(crypto_akcipher_set_pub_key A (child ctx) key = (0, c) \<longrightarrow>
      (let size = crypto_akcipher_maxsize A c in
       (0 <s size \<longrightarrow>
          pkcs1pad_set_pub_key A ctx key = (0, ctx\<lparr>child := c, key_size := size\<rparr>) \<and>
          uint (key_size (snd (pkcs1pad_set_pub_key A ctx key))) = sint size) \<and>
       (size <s 0 \<longrightarrow>
          pkcs1pad_set_pub_key A ctx key = (sint size, ctx\<lparr>child := c, key_size := 0\<rparr>) \<and>
          sint size < 0) \<and>
       (size = 0 \<longrightarrow>
          pkcs1pad_set_pub_key A ctx key = (0, ctx\<lparr>child := c, key_size := 0\<rparr>)))) \<and>
   (crypto_akcipher_set_priv_key A (child ctx) key = (0, c) \<longrightarrow>
      (let size = crypto_akcipher_maxsize A c in
       (0 <s size \<longrightarrow>
          pkcs1pad_set_priv_key A ctx key = (0, ctx\<lparr>child := c, key_size := size\<rparr>) \<and>
          uint (key_size (snd (pkcs1pad_set_priv_key A ctx key))) = sint size) \<and>
       (size <s 0 \<longrightarrow>
          pkcs1pad_set_priv_key A ctx key = (sint size, ctx\<lparr>child := c, key_size := 0\<rparr>) \<and>
          sint size < 0) \<and>
       (size = 0 \<longrightarrow>
          pkcs1pad_set_priv_key A ctx key = (0, ctx\<lparr>child := c, key_size := 0\<rparr>))))"
  by (auto simp: pkcs1pad_set_pub_key_def pkcs1pad_set_priv_key_def Let_def sint_pos_eq_uint
        word_sle_eq word_sless_alt)

lemma set_key_replies_example:
  "pkcs1pad_set_pub_key (test_alg 0) (test_ctx 0 None) [1, 2, 3] =
     (0, (test_ctx 0 None)\<lparr>child := 3, key_size := 3\<rparr>) \<and>
   crypto_akcipher_maxsize (test_alg 0) 0 <s 0 \<and>
   pkcs1pad_set_priv_key (test_alg 0) (test_ctx 7 None) [] =
     (- 22, (test_ctx 7 None)\<lparr>child := 0, key_size := 0\<rparr>)"
  using set_key_replies [of "test_alg 0" "test_ctx 0 None" "[1, 2, 3]" 3]
    set_key_replies [of "test_alg 0" "test_ctx 7 None" "[]" 0]
  by (simp add: test_alg_def test_ctx_def Let_def word_sless_alt word_sle_eq)

text \<open>
  Claim C6. Every non-positive reply of \<open>crypto_akcipher_maxsize\<close> is to reach the
  caller as an error. The functions test \<open>size <= 0\<close> and then return \<open>size\<close> itself:
  with an inner engine that accepts the key and reports the maximum size 0, both return
  the status 0, which is success, although no key size is cached; the transform then
  answers \<open>pkcs1pad_get_max_size\<close> with \<open>- EINVAL\<close> as it does before any key is set.
\<close>

theorem set_key_zero_size_reply:
  "crypto_akcipher_set_pub_key ((test_alg 0)\<lparr>crypto_akcipher_maxsize := \<lambda>c. 0\<rparr>)
      (child (test_ctx 0 None)) [1, 2, 3] = (0, 3) \<and>
   crypto_akcipher_maxsize ((test_alg 0)\<lparr>crypto_akcipher_maxsize := \<lambda>c. 0\<rparr>) 3 = 0 \<and>
   pkcs1pad_set_pub_key ((test_alg 0)\<lparr>crypto_akcipher_maxsize := \<lambda>c. 0\<rparr>)
      (test_ctx 0 None) [1, 2, 3] =
     (0, (test_ctx 0 None)\<lparr>child := 3, key_size := 0\<rparr>) \<and>
   pkcs1pad_set_priv_key ((test_alg 0)\<lparr>crypto_akcipher_maxsize := \<lambda>c. 0\<rparr>)
      (test_ctx 0 None) [1, 2, 3] =
     (0, (test_ctx 0 None)\<lparr>child := 3, key_size := 0\<rparr>) \<and>
   pkcs1pad_get_max_size
      (snd (pkcs1pad_set_pub_key ((test_alg 0)\<lparr>crypto_akcipher_maxsize := \<lambda>c. 0\<rparr>)
        (test_ctx 0 None) [1, 2, 3])) = - EINVAL"
  by (simp add: pkcs1pad_set_pub_key_def pkcs1pad_set_priv_key_def pkcs1pad_get_max_size_def
      test_alg_def test_ctx_def Let_def)

subsection \<open>Evaluation\<close>

lemmas errno_defs = ENOMEM_def EBUSY_def EINVAL_def EBADMSG_def EOVERFLOW_def EINPROGRESS_def
  ENOTSUPP_def

lemmas test_defs = test_env_def test_ctx_def test_req_def test_alg_def

lemmas eval_defs = Let_def kmalloc_def gfp_of_def CRYPTO_TFM_REQ_MAY_SLEEP_def
  CRYPTO_TFM_REQ_MAY_BACKLOG_def buf_set_def buf_get_def prandom_u32_max_def
  pkcs1pad_sg_set_buf_def child_done_def complete_done_def complete_copy_def
  sg_copy_from_buffer_def sg_pcopy_from_buffer_def memset_def memcpy_def

subsection \<open>Length checks of decrypt and verify\<close>

text \<open>
  Claim C8. Before anything is allocated or submitted, decrypt returns \<open>- EINVAL\<close> and
  leaves the request as it is exactly when no key is installed or the source length
  differs from \<open>key_size\<close>; verify does so exactly when no key is installed or the source
  length is less than \<open>key_size\<close>. With a key installed, verify accepts every source
  length from \<open>key_size\<close> on: when the key fits a page and the allocation succeeds, the
  request is handed to the inner engine with the caller's source and source length.
\<close>

theorem decrypt_verify_length_checks:
  "(pkcs1pad_decrypt_setup env ctx req = Early (- EINVAL) req \<longleftrightarrow>
      key_size ctx = 0 \<or> src_len req \<noteq> key_size ctx) \<and>
   (key_size ctx = 0 \<or> src_len req \<noteq> key_size ctx \<longrightarrow>
      pkcs1pad_decrypt env A ctx req = Some (- EINVAL, req)) \<and>
   (pkcs1pad_verify_setup env ctx req = Early (- EINVAL) req \<longleftrightarrow>
      key_size ctx = 0 \<or> src_len req < key_size ctx) \<and>
   (key_size ctx = 0 \<or> src_len req < key_size ctx \<longrightarrow>
      pkcs1pad_verify env A ctx req = Some (- EINVAL, req)) \<and>
   (key_size ctx \<noteq> 0 \<and> key_size ctx \<le> src_len req \<and> unat (key_size ctx) \<le> PAGE_SIZE env \<and>
    kmalloc_ok env (length (trace req)) (unat (key_size ctx)) (gfp_of (base_flags req)) \<longrightarrow>
      (\<exists>st. pkcs1pad_verify_setup env ctx req = Ready st \<and>
            c_src (child_req st) = src req \<and> c_src_len (child_req st) = src_len req))"
  by (auto simp: pkcs1pad_decrypt_setup_def pkcs1pad_verify_setup_def pkcs1pad_decrypt_def
        pkcs1pad_verify_def Let_def errno_defs kmalloc_def split: option.splits)

theorem decrypt_verify_length_checks_witness:
  "src_len (test_req (replicate 17 1) 16 0) \<noteq> key_size (test_ctx 16 None) \<and>
   pkcs1pad_decrypt test_env (test_alg 0) (test_ctx 16 None) (test_req (replicate 17 1) 16 0) =
     Some (- EINVAL, test_req (replicate 17 1) 16 0) \<and>
   src_len (test_req (replicate 15 1) 16 0) < key_size (test_ctx 16 None) \<and>
   pkcs1pad_verify test_env (test_alg 0) (test_ctx 16 None) (test_req (replicate 15 1) 16 0) =
     Some (- EINVAL, test_req (replicate 15 1) 16 0) \<and>
   key_size (test_ctx 16 None) \<le> src_len (test_req (replicate 17 1) 16 0) \<and>
   pkcs1pad_verify_setup test_env (test_ctx 16 None) (test_req (replicate 17 1) 16 0) =
     Ready (ready_req
       (pkcs1pad_verify_setup test_env (test_ctx 16 None) (test_req (replicate 17 1) 16 0)))"
  using decrypt_verify_length_checks
      [of test_env "test_ctx 16 None" "test_req (replicate 17 1) 16 0" "test_alg 0"]
    decrypt_verify_length_checks
      [of test_env "test_ctx 16 None" "test_req (replicate 15 1) 16 0" "test_alg 0"]
  by (auto simp: test_env_def test_ctx_def test_req_def)

subsection \<open>Submission and completion\<close>

text \<open>
  Claim C9. For each of the four operations, once the request for the inner engine is
  ready: when the inner call returns \<open>- EINPROGRESS\<close>, or \<open>- EBUSY\<close> for a request with
  the may-backlog flag, the operation returns that status with the request as the inner
  engine left it (the completion function has not run); for every other status of the
  inner call the operation returns what the completion function returns on that status.
  Each completion callback does nothing on \<open>- EINPROGRESS\<close>; on any other status it runs
  the completion function and calls the caller's completion with its result.
\<close>

theorem submit_dispatch:
  "(pkcs1pad_encrypt_setup env ctx req = Ready st \<longrightarrow>
      (let reply = crypto_akcipher_encrypt A (child ctx) (child_req st);
           st' = child_done st Encrypt reply
       in pkcs1pad_encrypt env A ctx req =
            (if left_pending (base_flags req) (r_err reply) then Some (r_err reply, st')
             else pkcs1pad_encrypt_sign_complete ctx st' (r_err reply)))) \<and>
   (pkcs1pad_decrypt_setup env ctx req = Ready st \<longrightarrow>
      (let reply = crypto_akcipher_decrypt A (child ctx) (child_req st);
           st' = child_done st Decrypt reply
       in pkcs1pad_decrypt env A ctx req =
            (if left_pending (base_flags req) (r_err reply) then Some (r_err reply, st')
             else pkcs1pad_decrypt_complete ctx st' (r_err reply)))) \<and>
   (pkcs1pad_sign_setup env ctx req = Ready st \<longrightarrow>
      (let reply = crypto_akcipher_sign A (child ctx) (child_req st);
           st' = child_done st Sign reply
       in pkcs1pad_sign env A ctx req =
            (if left_pending (base_flags req) (r_err reply) then Some (r_err reply, st')
             else pkcs1pad_encrypt_sign_complete ctx st' (r_err reply)))) \<and>
   (pkcs1pad_verify_setup env ctx req = Ready st \<longrightarrow>
      (let reply = crypto_akcipher_verify A (child ctx) (child_req st);
           st' = child_done st Verify reply
       in pkcs1pad_verify env A ctx req =
            (if left_pending (base_flags req) (r_err reply) then Some (r_err reply, st')
             else pkcs1pad_verify_complete ctx st' (r_err reply)))) \<and>
   pkcs1pad_encrypt_sign_complete_cb ctx st (- EINPROGRESS) = Some st \<and>
   pkcs1pad_decrypt_complete_cb ctx st (- EINPROGRESS) = Some st \<and>
   pkcs1pad_verify_complete_cb ctx st (- EINPROGRESS) = Some st \<and>
   (err \<noteq> - EINPROGRESS \<longrightarrow>
      pkcs1pad_encrypt_sign_complete_cb ctx st err =
        map_option (\<lambda>(e, s). s\<lparr>trace := trace s @ [Base_complete e]\<rparr>)
          (pkcs1pad_encrypt_sign_complete ctx st err) \<and>
      pkcs1pad_decrypt_complete_cb ctx st err =
        map_option (\<lambda>(e, s). s\<lparr>trace := trace s @ [Base_complete e]\<rparr>)
          (pkcs1pad_decrypt_complete ctx st err) \<and>
      pkcs1pad_verify_complete_cb ctx st err =
        map_option (\<lambda>(e, s). s\<lparr>trace := trace s @ [Base_complete e]\<rparr>)
          (pkcs1pad_verify_complete ctx st err))"
  by (auto simp: pkcs1pad_encrypt_def pkcs1pad_decrypt_def pkcs1pad_sign_def pkcs1pad_verify_def
        pkcs1pad_encrypt_sign_complete_cb_def pkcs1pad_decrypt_complete_cb_def
        pkcs1pad_verify_complete_cb_def left_pending_def Let_def split: option.splits)

theorem submit_dispatch_witness:
  "pkcs1pad_decrypt_setup test_env (test_ctx 16 None) (test_req (replicate 16 7) 16 0) =
     Ready (ready_req
       (pkcs1pad_decrypt_setup test_env (test_ctx 16 None) (test_req (replicate 16 7) 16 0))) \<and>
   left_pending 0 (- EINPROGRESS) \<and>
   map_option fst (pkcs1pad_decrypt test_env (test_alg (- EINPROGRESS)) (test_ctx 16 None)
       (test_req (replicate 16 7) 16 0)) = Some (- EINPROGRESS) \<and>
   map_option (trace \<circ> snd) (pkcs1pad_decrypt test_env (test_alg (- EINPROGRESS))
       (test_ctx 16 None) (test_req (replicate 16 7) 16 0)) =
     Some [Kmalloc 16 GFP_ATOMIC,
           Child_call Decrypt
             \<lparr>c_src = replicate 16 7, c_src_len = 16, c_dst_len = 16, c_flags = 0\<rparr>] \<and>
   \<not> left_pending 0 (- EBUSY) \<and>
   map_option fst (pkcs1pad_decrypt test_env (test_alg (- EBUSY)) (test_ctx 16 None)
       (test_req (replicate 16 7) 16 0)) = Some (- EBUSY) \<and>
   map_option (trace \<circ> snd) (pkcs1pad_decrypt test_env (test_alg (- EBUSY))
       (test_ctx 16 None) (test_req (replicate 16 7) 16 0)) =
     Some [Kmalloc 16 GFP_ATOMIC,
           Child_call Decrypt
             \<lparr>c_src = replicate 16 7, c_src_len = 16, c_dst_len = 16, c_flags = 0\<rparr>,
           Kzfree] \<and>
   pkcs1pad_verify_setup test_env (test_ctx 16 None) (test_req (replicate 16 7) 16 0x400) =
     Ready (ready_req
       (pkcs1pad_verify_setup test_env (test_ctx 16 None) (test_req (replicate 16 7) 16 0x400))) \<and>
   left_pending 0x400 (- EBUSY) \<and>
   map_option (trace \<circ> snd) (pkcs1pad_verify test_env (test_alg (- EBUSY))
       (test_ctx 16 None) (test_req (replicate 16 7) 16 0x400)) =
     Some [Kmalloc 16 GFP_ATOMIC,
           Child_call Verify
             \<lparr>c_src = replicate 16 7, c_src_len = 16, c_dst_len = 16, c_flags = 0x400\<rparr>] \<and>
   - EBUSY \<noteq> - EINPROGRESS \<and>
   map_option trace (pkcs1pad_verify_complete_cb (test_ctx 16 None)
       (ready_req (pkcs1pad_verify_setup test_env (test_ctx 16 None)
          (test_req (replicate 16 7) 16 0x400))) (- EBUSY)) =
     Some [Kmalloc 16 GFP_ATOMIC, Kzfree, Base_complete (- EBUSY)]"
proof -
  have d: "pkcs1pad_decrypt_setup test_env (test_ctx 16 None) (test_req (replicate 16 7) 16 0) =
     Ready (ready_req
       (pkcs1pad_decrypt_setup test_env (test_ctx 16 None) (test_req (replicate 16 7) 16 0)))"
    by (simp add: pkcs1pad_decrypt_setup_def test_defs eval_defs errno_defs)
  have v: "pkcs1pad_verify_setup test_env (test_ctx 16 None) (test_req (replicate 16 7) 16 0x400) =
     Ready (ready_req
       (pkcs1pad_verify_setup test_env (test_ctx 16 None) (test_req (replicate 16 7) 16 0x400)))"
    by (simp add: pkcs1pad_verify_setup_def test_defs eval_defs errno_defs)
  show ?thesis
    using submit_dispatch [of test_env "test_ctx 16 None" "test_req (replicate 16 7) 16 0"
        "ready_req (pkcs1pad_decrypt_setup test_env (test_ctx 16 None)
           (test_req (replicate 16 7) 16 0))" "test_alg (- EINPROGRESS)" "- EBUSY"]
      submit_dispatch [of test_env "test_ctx 16 None" "test_req (replicate 16 7) 16 0"
        "ready_req (pkcs1pad_decrypt_setup test_env (test_ctx 16 None)
           (test_req (replicate 16 7) 16 0))" "test_alg (- EBUSY)" "- EBUSY"]
      submit_dispatch [of test_env "test_ctx 16 None" "test_req (replicate 16 7) 16 0x400"
        "ready_req (pkcs1pad_verify_setup test_env (test_ctx 16 None)
           (test_req (replicate 16 7) 16 0x400))" "test_alg (- EBUSY)" "- EBUSY"]
      d v
    by (simp add: pkcs1pad_decrypt_setup_def pkcs1pad_verify_setup_def
        pkcs1pad_decrypt_complete_def pkcs1pad_verify_complete_def left_pending_def
        test_defs eval_defs errno_defs)
qed

subsection \<open>The padding of encrypt\<close>

lemma prandom_u32_max_less: "unat (prandom_u32_max 255 r) < 255"
proof -
  have "unat r < 2 ^ 32"
    using unsigned_less [of r, where 'a = nat] by simp
  then have "(unat r * 255) div 2 ^ 32 < 255"
    by (simp add: less_mult_imp_div_less)
  then show ?thesis
    by (simp add: prandom_u32_max_def unat_of_nat)
qed

lemma ps_byte_unat:
  "unat (ucast (1 + prandom_u32_max 255 r) :: u8) = Suc (unat (prandom_u32_max 255 r))"
proof -
  have l: "unat (prandom_u32_max 255 r) < 255"
    by (rule prandom_u32_max_less)
  then have "unat (1 + prandom_u32_max 255 r) = Suc (unat (prandom_u32_max 255 r))"
    by (simp add: unat_word_ariths)
  with l show ?thesis
    by (simp add: unsigned_ucast_eq take_bit_eq_mod)
qed

lemma ps_byte_nonzero: "(ucast (1 + prandom_u32_max 255 r) :: u8) \<noteq> 0"
  using ps_byte_unat [of r] by (metis Zero_not_Suc unat_0)

lemma u32_sub: "b \<le> a \<Longrightarrow> unat (a - b) = unat a - unat b" for a b :: u32
  by (simp add: unat_sub)

lemma u32_inc: "i < e \<Longrightarrow> unat (i + 1) = Suc (unat i)" for i e :: u32
  by unat_arith

lemma fill_ps_eq:
  "unat i \<le> unat e \<Longrightarrow> unat e \<le> length buf \<Longrightarrow>
   fill_ps env i e buf =
     Some (take (unat i) buf @
           map (\<lambda>j. ucast (1 + prandom_u32_max 255 (prandom_u32 env (j - 1)))) [unat i..<unat e] @
           drop (unat e) buf)"
proof (induction env i e buf rule: fill_ps.induct)
  case (1 env i ps_end buf)
  show ?case
  proof (cases "i < ps_end")
    case True
    then have lt: "unat i < unat ps_end" and inc: "unat (i + 1) = Suc (unat i)"
      by (simp_all add: word_less_nat_alt u32_inc)
    let ?v = "ucast (1 + prandom_u32_max 255 (prandom_u32 env (unat i - 1))) :: u8"
    have set: "buf_set buf i ?v = Some (buf[unat i := ?v])"
      using lt "1.prems" by (simp add: buf_set_def)
    have ih: "fill_ps env (i + 1) ps_end (buf[unat i := ?v]) =
      Some (take (Suc (unat i)) (buf[unat i := ?v]) @
            map (\<lambda>j. ucast (1 + prandom_u32_max 255 (prandom_u32 env (j - 1))))
              [Suc (unat i)..<unat ps_end] @
            drop (unat ps_end) (buf[unat i := ?v]))"
      using "1.IH" [OF True set] lt "1.prems" by (simp add: inc)
    have t: "take (Suc (unat i)) (buf[unat i := ?v]) = take (unat i) buf @ [?v]"
      using lt "1.prems" by (simp add: take_Suc_conv_app_nth)
    have d: "drop (unat ps_end) (buf[unat i := ?v]) = drop (unat ps_end) buf"
      using lt by simp
    have u: "[unat i..<unat ps_end] = unat i # [Suc (unat i)..<unat ps_end]"
      using lt by (simp add: upt_conv_Cons)
    have "fill_ps env i ps_end buf = fill_ps env (i + 1) ps_end (buf[unat i := ?v])"
      using True set by (simp add: fill_ps.simps [of env i ps_end buf])
    also note ih
    finally show ?thesis
      by (simp only: t d u append_Cons append_Nil append_assoc list.map)
  next
    case False
    then have "unat i = unat ps_end"
      using "1.prems" by (simp add: word_less_nat_alt)
    then show ?thesis
      using False by (simp add: fill_ps.simps [of env i ps_end buf])
  qed
qed

lemma random_ps_shift:
  "map (\<lambda>j. ucast (1 + prandom_u32_max 255 (prandom_u32 env (j - 1))) :: u8) [Suc 0..<Suc n] =
   random_ps env n"
proof -
  have "[Suc 0..<Suc n] = map Suc [0..<n]"
    by (simp only: map_Suc_upt)
  then show ?thesis
    by (simp add: random_ps_def comp_def del: upt_Suc)
qed

lemma length_random_ps [simp]: "length (random_ps env n) = n"
  by (simp add: random_ps_def)

lemma random_ps_nonzero: "0 \<notin> set (random_ps env n)"
  using ps_byte_nonzero by (auto simp: random_ps_def)

lemma pad_block:
  assumes "length b = Suc e" "1 \<le> e" "length m = e - 1"
  shows "(take 1 (b[0 := x]) @ m @ drop e (b[0 := x]))[e := z] = x # m @ [z]"
proof -
  obtain y ys where b: "b = y # ys"
    using assms(1) by (cases b) auto
  have l: "length (drop e (b[0 := x])) = 1"
    using assms by simp
  then obtain w where d: "drop e (b[0 := x]) = [w]"
    by (cases "drop e (b[0 := x])") auto
  have "(take 1 (b[0 := x]) @ m @ drop e (b[0 := x])) = (x # m) @ [w]"
    using d by (simp add: b)
  moreover have "length (x # m) = e"
    using assms by simp
  ultimately show ?thesis
    by (metis append_Cons append_Nil list_update_length)
qed

lemma encrypt_fill_eq:
  fixes ps_end :: u32
  assumes len: "length b = Suc (unat ps_end)" and pos: "1 \<le> unat ps_end"
  shows "Option.bind (buf_set b 0 0x02)
           (\<lambda>b1. Option.bind (fill_ps env 1 ps_end b1) (\<lambda>b2. buf_set b2 ps_end 0x00)) =
         Some (0x02 # random_ps env (unat ps_end - 1) @ [0x00])"
proof -
  let ?b1 = "b[0 := 0x02]"
  have s0: "buf_set b 0 0x02 = Some ?b1"
    using len by (simp add: buf_set_def)
  have f: "fill_ps env 1 ps_end ?b1 =
      Some (take 1 ?b1 @ random_ps env (unat ps_end - 1) @ drop (unat ps_end) ?b1)"
  proof -
    have "[Suc 0..<unat ps_end] = [Suc 0..<Suc (unat ps_end - 1)]"
      using pos by simp
    then show ?thesis
      using fill_ps_eq [of 1 ps_end ?b1 env] pos len random_ps_shift [of env "unat ps_end - 1"]
      by simp
  qed
  have s1: "buf_set (take 1 ?b1 @ random_ps env (unat ps_end - 1) @ drop (unat ps_end) ?b1)
      ps_end 0x00 = Some (0x02 # random_ps env (unat ps_end - 1) @ [0x00])"
    using pad_block [OF len pos, of "random_ps env (unat ps_end - 1)" "0x02" "0x00"] len pos
    by (simp add: buf_set_def)
  show ?thesis
    by (simp only: s0 f s1 Option.bind.simps)
qed

lemma child_request_eq:
  "r\<lparr>c_src_len := a, c_dst_len := b, c_src := s, c_flags := f\<rparr> =
   \<lparr>c_src = s, c_src_len = a, c_dst_len = b, c_flags = f\<rparr>"
  by (cases r) simp

lemma encrypt_setup_Ready:
  assumes r: "pkcs1pad_encrypt_setup env ctx req = Ready st"
    and b: "unat (src_len req) + 3 \<le> unat (key_size ctx)"
  shows "st = req
    \<lparr>child_req :=
       \<lparr>c_src = (0x02 # random_ps env (unat (key_size ctx) - 3 - unat (src_len req)) @ [0x00])
                 @ src req,
        c_src_len = key_size ctx - 1, c_dst_len = key_size ctx, c_flags = base_flags req\<rparr>,
     in_buf := Some (0x02 # random_ps env (unat (key_size ctx) - 3 - unat (src_len req)) @ [0x00]),
     out_buf := Some (map (heap_garbage env (Suc (length (trace req)))) [0..<unat (key_size ctx)]),
     trace := trace req @
       [Kmalloc (unat (key_size ctx) - 1 - unat (src_len req)) (gfp_of (base_flags req)),
        Kmalloc (unat (key_size ctx)) (gfp_of (base_flags req))]\<rparr>"
    and "key_size ctx \<le> dst_len req" and "unat (key_size ctx) \<le> PAGE_SIZE env"
proof -
  let ?k = "key_size ctx" and ?l = "src_len req"
  define N where "N = unat ?k - 1 - unat ?l"
  define pe where "pe = ?k - ?l - 2"
  define P where "P = 0x02 # random_ps env (unat ?k - 3 - unat ?l) @ [0x00]"
  define G where "G = map (heap_garbage env (length (trace req))) [0..<N]"
  have n: "unat (?k - 1 - ?l) = N"
    unfolding N_def using b by unat_arith
  have pe: "unat pe = unat ?k - unat ?l - 2"
    unfolding pe_def using b by unat_arith
  have "Option.bind (buf_set G 0 0x02)
           (\<lambda>b1. Option.bind (fill_ps env 1 pe b1) (\<lambda>b2. buf_set b2 pe 0x00)) =
         Some (0x02 # random_ps env (unat pe - 1) @ [0x00])"
    using b by (intro encrypt_fill_eq) (simp_all add: pe G_def N_def)
  moreover have "unat pe - 1 = unat ?k - 3 - unat ?l"
    using b by (simp add: pe)
  ultimately have fill: "Option.bind (buf_set G 0 0x02)
           (\<lambda>b1. Option.bind (fill_ps env 1 pe b1) (\<lambda>b2. buf_set b2 pe 0x00)) = Some P"
    by (simp only: P_def)
  have lenP: "length P = N"
    using b by (simp add: P_def N_def)
  from r show "key_size ctx \<le> dst_len req" "unat (key_size ctx) \<le> PAGE_SIZE env"
    by (auto simp: pkcs1pad_encrypt_setup_def split: if_splits)
  from r have "st = req
    \<lparr>child_req :=
       \<lparr>c_src = P @ src req,
        c_src_len = key_size ctx - 1, c_dst_len = key_size ctx, c_flags = base_flags req\<rparr>,
     in_buf := Some P,
     out_buf := Some (map (heap_garbage env (Suc (length (trace req)))) [0..<unat (key_size ctx)]),
     trace := trace req @
       [Kmalloc N (gfp_of (base_flags req)),
        Kmalloc (unat (key_size ctx)) (gfp_of (base_flags req))]\<rparr>"
    unfolding pkcs1pad_encrypt_setup_def Let_def kmalloc_def n pe_def [symmetric]
    by (auto simp: G_def [symmetric] fill child_request_eq pkcs1pad_sg_set_buf_def lenP
        split: if_splits)
  then show "st = req
    \<lparr>child_req :=
       \<lparr>c_src = (0x02 # random_ps env (unat (key_size ctx) - 3 - unat (src_len req)) @ [0x00])
                 @ src req,
        c_src_len = key_size ctx - 1, c_dst_len = key_size ctx, c_flags = base_flags req\<rparr>,
     in_buf := Some (0x02 # random_ps env (unat (key_size ctx) - 3 - unat (src_len req)) @ [0x00]),
     out_buf := Some (map (heap_garbage env (Suc (length (trace req)))) [0..<unat (key_size ctx)]),
     trace := trace req @
       [Kmalloc (unat (key_size ctx) - 1 - unat (src_len req)) (gfp_of (base_flags req)),
        Kmalloc (unat (key_size ctx)) (gfp_of (base_flags req))]\<rparr>"
    by (simp only: P_def N_def)
qed




subsection \<open>The checks of encrypt\<close>

text \<open>
  With a key of at least 11 bytes the checks of encrypt are those of the claim C7, in the
  order of the source.
\<close>

lemma encrypt_checks_from_11:
  assumes "11 \<le> key_size ctx"
  shows "(unat (key_size ctx) < unat (src_len req) + 11 \<longrightarrow>
            pkcs1pad_encrypt env A ctx req = Some (- EOVERFLOW, req)) \<and>
         (unat (src_len req) + 11 \<le> unat (key_size ctx) \<and> dst_len req < key_size ctx \<longrightarrow>
            pkcs1pad_encrypt env A ctx req = Some (- EOVERFLOW, req\<lparr>dst_len := key_size ctx\<rparr>)) \<and>
         (unat (src_len req) + 11 \<le> unat (key_size ctx) \<and> key_size ctx \<le> dst_len req \<and>
          PAGE_SIZE env < unat (key_size ctx) \<longrightarrow>
            pkcs1pad_encrypt env A ctx req = Some (- ENOTSUPP, req))"
proof -
  have k: "key_size ctx \<noteq> 0"
    using assms by auto
  have c: "src_len req > key_size ctx - 11 \<longleftrightarrow> unat (key_size ctx) < unat (src_len req) + 11"
    using assms by unat_arith
  show ?thesis
    using k by (auto simp: pkcs1pad_encrypt_def pkcs1pad_encrypt_setup_def c)
qed

lemma encrypt_no_key: "key_size ctx = 0 \<Longrightarrow> pkcs1pad_encrypt env A ctx req = Some (- EINVAL, req)"
  by (simp add: pkcs1pad_encrypt_def pkcs1pad_encrypt_setup_def)

text \<open>
  Claim C7. Encrypt is to return \<open>- EOVERFLOW\<close> when the plaintext is longer than
  \<open>key_size - 11\<close>, so that the length \<open>key_size - 10\<close> is rejected. With a key of 10
  bytes the difference \<open>key_size - 11\<close> wraps around in \<open>unsigned int\<close>: the empty
  plaintext, of length \<open>key_size - 10\<close>, is not rejected; encrypt runs to the end with
  status 0 and hands the inner engine a block of 9 bytes with 7 padding bytes only.
\<close>

theorem encrypt_key_size_10_empty_plaintext:
  "src_len (test_req [] 10 0) = key_size (test_ctx 10 None) - 10 \<and>
   pkcs1pad_encrypt_setup test_env (test_ctx 10 None) (test_req [] 10 0) \<noteq>
     Early (- EOVERFLOW) (test_req [] 10 0) \<and>
   map_option fst (pkcs1pad_encrypt test_env (test_alg 0) (test_ctx 10 None) (test_req [] 10 0)) =
     Some 0 \<and>
   map_option (c_src \<circ> child_req \<circ> snd)
     (pkcs1pad_encrypt test_env (test_alg 0) (test_ctx 10 None) (test_req [] 10 0)) =
     Some [0x02, 2, 159, 62, 219, 122, 25, 182, 0x00]"
  by (simp add: pkcs1pad_encrypt_def pkcs1pad_encrypt_setup_def pkcs1pad_encrypt_sign_complete_def
      test_defs eval_defs errno_defs fill_ps.simps upt_rec)

theorem encrypt_key_size_10_empty_plaintext_witness:
  "map_option fst
     (pkcs1pad_encrypt test_env (test_alg 0) (test_ctx 10 None) (test_req [] 10 0)) \<noteq>
   Some (- EOVERFLOW)"
  using encrypt_key_size_10_empty_plaintext by (auto simp: errno_defs)

subsection \<open>The padding of sign\<close>

lemma rsa_lookup_asn1_size:
  assumes "rsa_lookup_asn1 h = Some di"
  shows "tmpl_size di = length (tmpl_data di)" and "tmpl_size di \<le> 19"
  using assms
  by (auto simp: rsa_lookup_asn1_def rsa_asn1_templates_def asn1_entry_def
      rsa_digest_info_md5_def rsa_digest_info_sha1_def rsa_digest_info_rmd160_def
      rsa_digest_info_sha224_def rsa_digest_info_sha256_def rsa_digest_info_sha384_def
      rsa_digest_info_sha512_def split: if_splits)

lemma sign_fill_eq:
  fixes pe :: u32
  assumes len: "length b = Suc (unat pe) + length d" and pos: "1 \<le> unat pe"
  shows "Option.bind (buf_set b 0 0x01)
           (\<lambda>b1. Option.bind (memset b1 1 0xff (unat (pe - 1)))
             (\<lambda>b2. Option.bind (buf_set b2 pe 0x00)
               (\<lambda>b3. memcpy b3 (unat pe + 1) d (length d)))) =
         Some (0x01 # replicate (unat pe - 1) 0xff @ [0x00] @ d)"
proof -
  define q where "q = unat pe - 1"
  have pe: "unat pe = Suc q"
    using pos by (simp add: q_def)
  have pm: "unat (pe - 1) = q"
    unfolding q_def using pos by unat_arith
  obtain x xs where b: "b = x # xs"
    using len by (cases b) auto
  have "length (drop q xs) = Suc (length d)"
    using len b by (simp add: pe)
  then obtain y ys where d1: "drop q xs = y # ys" and lys: "length ys = length d"
    unfolding length_Suc_conv by blast
  let ?r = "replicate q (0xff :: u8)"
  have s0: "buf_set b 0 0x01 = Some (0x01 # xs)"
    by (simp add: buf_set_def b)
  have m: "memset (0x01 # xs) 1 0xff q = Some (0x01 # ?r @ y # ys)"
    using len b by (simp add: memset_def pe d1)
  have s1: "buf_set (0x01 # ?r @ y # ys) pe 0x00 = Some (0x01 # ?r @ 0x00 # ys)"
  proof -
    have "(0x01 # ?r @ y # ys)[Suc q := 0x00] = ((0x01 # ?r) @ y # ys)[length (0x01 # ?r) := 0x00]"
      by simp
    also have "\<dots> = (0x01 # ?r) @ 0x00 # ys"
      by (simp only: list_update_length)
    finally show ?thesis
      by (simp add: buf_set_def pe)
  qed
  have c: "memcpy (0x01 # ?r @ 0x00 # ys) (Suc q + 1) d (length d) = Some (0x01 # ?r @ [0x00] @ d)"
    using lys by (simp add: memcpy_def)
  show ?thesis
    unfolding pm by (simp only: s0 m s1 c Option.bind.simps pe) (simp add: q_def)
qed

lemma sign_setup_Ready:
  assumes r: "pkcs1pad_sign_setup env ctx req = Ready st"
    and h: "hash_name ctx = Some h" and di: "rsa_lookup_asn1 h = Some di"
    and b: "unat (src_len req) + tmpl_size di + 3 \<le> unat (key_size ctx)"
  shows "in_buf st =
      Some (0x01 # replicate (unat (key_size ctx) - 3 - unat (src_len req) - tmpl_size di) 0xff @
            [0x00] @ tmpl_data di)"
    and "child_req st =
      \<lparr>c_src = (0x01 # replicate (unat (key_size ctx) - 3 - unat (src_len req) - tmpl_size di) 0xff @
                [0x00] @ tmpl_data di) @ src req,
       c_src_len = key_size ctx - 1, c_dst_len = key_size ctx, c_flags = base_flags req\<rparr>"
proof -
  let ?k = "key_size ctx" and ?l = "src_len req"
  define dg :: u32 where "dg = of_nat (tmpl_size di)"
  define N where "N = unat ?k - 1 - unat ?l"
  define pe where "pe = ?k - dg - ?l - 2"
  define P where "P = 0x01 #
    replicate (unat (key_size ctx) - 3 - unat (src_len req) - tmpl_size di) 0xff @
    [0x00] @ tmpl_data di"
  define G where "G = map (heap_garbage env (length (trace req))) [0..<N]"
  note sz = rsa_lookup_asn1_size [OF di]
  have dg: "unat dg = tmpl_size di"
    using sz(2) by (simp add: dg_def unat_of_nat)
  have b': "unat ?l + unat dg + 3 \<le> unat ?k"
    using b by (simp add: dg)
  have n: "unat (?k - 1 - ?l) = N"
    unfolding N_def using b' by unat_arith
  have pe: "unat pe = unat ?k - unat dg - unat ?l - 2"
    unfolding pe_def using b' by unat_arith
  have "Option.bind (buf_set G 0 0x01)
           (\<lambda>b1. Option.bind (memset b1 1 0xff (unat (pe - 1)))
             (\<lambda>b2. Option.bind (buf_set b2 pe 0x00)
               (\<lambda>b3. memcpy b3 (unat pe + 1) (tmpl_data di) (length (tmpl_data di))))) =
         Some (0x01 # replicate (unat pe - 1) 0xff @ [0x00] @ tmpl_data di)"
    using b' by (intro sign_fill_eq) (simp_all add: pe G_def N_def dg sz(1))
  moreover have "unat pe - 1 = unat ?k - 3 - unat ?l - tmpl_size di"
    using b' by (simp add: pe dg)
  ultimately have "Option.bind (buf_set G 0 0x01)
           (\<lambda>b1. Option.bind (memset b1 1 0xff (unat (pe - 1)))
             (\<lambda>b2. Option.bind (buf_set b2 pe 0x00)
               (\<lambda>b3. memcpy b3 (unat pe + 1) (tmpl_data di) (tmpl_size di)))) = Some P"
    by (simp only: P_def sz(1))
  then have fill: "Option.bind (buf_set G 0 0x01)
           (\<lambda>b1. Option.bind (memset b1 (Suc 0) 0xff (unat (pe - 1)))
             (\<lambda>b2. Option.bind (buf_set b2 pe 0x00)
               (\<lambda>b3. memcpy b3 (Suc (unat pe)) (tmpl_data di) (tmpl_size di)))) = Some P"
    by (simp only: One_nat_def add_Suc_right add_0_right)
  have lenP: "length P = N"
    using b by (simp add: P_def N_def sz(1))
  from r have st: "st = req
    \<lparr>child_req :=
       \<lparr>c_src = P @ src req,
        c_src_len = key_size ctx - 1, c_dst_len = key_size ctx, c_flags = base_flags req\<rparr>,
     in_buf := Some P,
     out_buf := Some (map (heap_garbage env (Suc (length (trace req)))) [0..<unat (key_size ctx)]),
     trace := trace req @
       [Kmalloc N (gfp_of (base_flags req)),
        Kmalloc (unat (key_size ctx)) (gfp_of (base_flags req))]\<rparr>"
    unfolding pkcs1pad_sign_setup_def Let_def kmalloc_def h di option.case n
      dg_def [symmetric] pe_def [symmetric]
    by (auto simp: G_def [symmetric] fill child_request_eq pkcs1pad_sg_set_buf_def lenP
        split: if_splits)
  show "in_buf st =
      Some (0x01 # replicate (unat (key_size ctx) - 3 - unat (src_len req) - tmpl_size di) 0xff @
            [0x00] @ tmpl_data di)"
    by (simp add: st P_def)
  show "child_req st =
      \<lparr>c_src = (0x01 # replicate (unat (key_size ctx) - 3 - unat (src_len req) - tmpl_size di) 0xff @
                [0x00] @ tmpl_data di) @ src req,
       c_src_len = key_size ctx - 1, c_dst_len = key_size ctx, c_flags = base_flags req\<rparr>"
    by (simp add: st P_def)
qed

lemma sign_trace:
  assumes "pkcs1pad_sign_setup env ctx req = Ready st"
    and "pkcs1pad_sign env A ctx req = Some (e, st')"
  shows "Child_call Sign (child_req st) \<in> set (trace st')"
  using assms
  by (auto simp: pkcs1pad_sign_def Let_def child_done_def pkcs1pad_encrypt_sign_complete_def
      split: if_splits option.splits)

text \<open>
  Sign within its range. For a sign request that has passed the checks and got its
  buffers, under a hash name whose template \<open>di\<close> is found, with a source of \<open>len\<close>
  bytes such that \<open>key_size - 3 - len - size(di)\<close> is a number of bytes: the block handed
  to the inner engine is the byte 0x01, then \<open>key_size - 3 - len - size(di)\<close> bytes 0xFF,
  then the byte 0x00, then the DER prefix of the template, then the caller's message,
  \<open>key_size - 1\<close> bytes in all; the working buffer is the part before the caller's
  message and has \<open>key_size - 1 - len\<close> bytes, which is 122 for a key of 128 bytes, a
  message of 5 bytes and sha256.
\<close>

lemma sign_block_in_range:
  assumes "pkcs1pad_sign_setup env ctx req = Ready st"
    and "hash_name ctx = Some h" and "rsa_lookup_asn1 h = Some di"
    and "unat (src_len req) + tmpl_size di + 3 \<le> unat (key_size ctx)"
    and "length (src req) = unat (src_len req)"
  shows "c_src (child_req st) =
           0x01 # replicate (unat (key_size ctx) - 3 - unat (src_len req) - tmpl_size di) 0xff @
           [0x00] @ tmpl_data di @ src req \<and>
         length (c_src (child_req st)) = unat (key_size ctx) - 1 \<and>
         unat (c_src_len (child_req st)) = unat (key_size ctx) - 1 \<and>
         in_buf st =
           Some (0x01 # replicate (unat (key_size ctx) - 3 - unat (src_len req) - tmpl_size di) 0xff @
                 [0x00] @ tmpl_data di) \<and>
         map_option length (in_buf st) = Some (unat (key_size ctx) - 1 - unat (src_len req)) \<and>
         (key_size ctx = 128 \<and> src_len req = 5 \<and> h = ''sha256'' \<longrightarrow>
            tmpl_size di = 19 \<and> map_option length (in_buf st) = Some 122) \<and>
         (pkcs1pad_sign env A ctx req = Some (e, st') \<longrightarrow>
            Child_call Sign (child_req st) \<in> set (trace st'))"
proof -
  note sz = rsa_lookup_asn1_size [OF assms(3)]
  note rd = sign_setup_Ready [OF assms(1-4)]
  have k1: "unat (key_size ctx - 1) = unat (key_size ctx) - 1"
    using assms(4) by unat_arith
  have sha: "tmpl_size di = 19" if "h = ''sha256''"
    using assms(3) that
    by (auto simp: rsa_lookup_asn1_def rsa_asn1_templates_def asn1_entry_def
        rsa_digest_info_sha256_def)
  have l: "map_option length (in_buf st) = Some (unat (key_size ctx) - 1 - unat (src_len req))"
    using assms(4) by (simp add: rd(1) sz(1))
  have "key_size ctx = 128 \<and> src_len req = 5 \<and> h = ''sha256'' \<longrightarrow>
      tmpl_size di = 19 \<and> map_option length (in_buf st) = Some 122"
    using l sha by auto
  then show ?thesis
    using assms(4,5) sign_trace [OF assms(1), of A e st'] l
    by (simp add: rd sz(1) k1)
qed

lemma sign_block_sha256_128:
  "pkcs1pad_sign_setup test_env (test_ctx 128 (Some ''sha256''))
      (test_req [0x68, 0x65, 0x6c, 0x6c, 0x6f] 128 0) =
     Ready (ready_req (pkcs1pad_sign_setup test_env (test_ctx 128 (Some ''sha256''))
       (test_req [0x68, 0x65, 0x6c, 0x6c, 0x6f] 128 0))) \<and>
   hash_name (test_ctx 128 (Some ''sha256'')) = Some ''sha256'' \<and>
   rsa_lookup_asn1 ''sha256'' = Some (asn1_entry ''sha256'' rsa_digest_info_sha256) \<and>
   unat (src_len (test_req [0x68, 0x65, 0x6c, 0x6c, 0x6f] 128 0)) +
     tmpl_size (asn1_entry ''sha256'' rsa_digest_info_sha256) + 3
     \<le> unat (key_size (test_ctx 128 (Some ''sha256''))) \<and>
   c_src (child_req (ready_req (pkcs1pad_sign_setup test_env (test_ctx 128 (Some ''sha256''))
       (test_req [0x68, 0x65, 0x6c, 0x6c, 0x6f] 128 0)))) =
     0x01 # replicate 101 0xff @ [0x00] @ rsa_digest_info_sha256 @ [0x68, 0x65, 0x6c, 0x6c, 0x6f] \<and>
   map_option length (in_buf (ready_req (pkcs1pad_sign_setup test_env
       (test_ctx 128 (Some ''sha256'')) (test_req [0x68, 0x65, 0x6c, 0x6c, 0x6f] 128 0)))) =
     Some 122"
proof -
  have l: "rsa_lookup_asn1 ''sha256'' = Some (asn1_entry ''sha256'' rsa_digest_info_sha256)"
    by (simp add: rsa_lookup_asn1_def rsa_asn1_templates_def asn1_entry_def)
  have r: "pkcs1pad_sign_setup test_env (test_ctx 128 (Some ''sha256''))
      (test_req [0x68, 0x65, 0x6c, 0x6c, 0x6f] 128 0) =
     Ready (ready_req (pkcs1pad_sign_setup test_env (test_ctx 128 (Some ''sha256''))
       (test_req [0x68, 0x65, 0x6c, 0x6c, 0x6f] 128 0)))"
    by (simp add: pkcs1pad_sign_setup_def l test_defs eval_defs errno_defs asn1_entry_def
        rsa_digest_info_sha256_def)
  have h: "hash_name (test_ctx 128 (Some ''sha256'')) = Some ''sha256''"
    by (simp add: test_ctx_def)
  have b: "unat (src_len (test_req [0x68, 0x65, 0x6c, 0x6c, 0x6f] 128 0)) +
     tmpl_size (asn1_entry ''sha256'' rsa_digest_info_sha256) + 3
     \<le> unat (key_size (test_ctx 128 (Some ''sha256'')))"
    by (simp add: test_defs asn1_entry_def rsa_digest_info_sha256_def)
  have s: "length (src (test_req [0x68, 0x65, 0x6c, 0x6c, 0x6f] 128 0)) =
      unat (src_len (test_req [0x68, 0x65, 0x6c, 0x6c, 0x6f] 128 0))"
    by (simp add: test_defs)
  show ?thesis
    using sign_block_in_range [OF r h l b s] r h l b
    by (simp add: test_defs asn1_entry_def rsa_digest_info_sha256_def)
qed

lemma length_long_message: "length long_message = 4294967280"
  by (simp only: long_message_def length_replicate)

lemma lookup_sha256:
  "rsa_lookup_asn1 ''sha256'' = Some (asn1_entry ''sha256'' rsa_digest_info_sha256)"
  by (simp add: rsa_lookup_asn1_def rsa_asn1_templates_def asn1_entry_def)

subsection \<open>The length check of sign\<close>

text \<open>
  When neither \<open>key_size - 11\<close> nor \<open>src_len + digest_size\<close> wraps around, a request
  that passes the checks of sign is in the range of \<open>sign_block_in_range\<close>.
\<close>

lemma sign_checks_in_range:
  assumes r: "pkcs1pad_sign_setup env ctx req = Ready st"
    and h: "hash_name ctx = Some h" and di: "rsa_lookup_asn1 h = Some di"
    and k: "11 \<le> key_size ctx"
    and nw: "unat (src_len req) + tmpl_size di < 2 ^ 32"
  shows "unat (src_len req) + tmpl_size di + 11 \<le> unat (key_size ctx)"
proof -
  define dg :: u32 where "dg = of_nat (tmpl_size di)"
  have dg: "unat dg = tmpl_size di"
    using rsa_lookup_asn1_size(2) [OF di] by (simp add: dg_def unat_of_nat)
  have "\<not> src_len req + dg > key_size ctx - 11"
    using r unfolding pkcs1pad_sign_setup_def Let_def h di option.case dg_def [symmetric]
    by (auto split: if_splits)
  then have le: "unat (src_len req + dg) \<le> unat (key_size ctx - 11)"
    by (simp add: word_less_nat_alt)
  have "unat (src_len req) + unat dg < 2 ^ LENGTH(32)"
    using nw by (simp add: dg)
  then have s: "unat (src_len req + dg) = unat (src_len req) + unat dg"
    by (simp only: unat_add_lem)
  have k11: "11 \<le> unat (key_size ctx)"
    using k by (simp add: word_le_nat_alt)
  have d: "unat (key_size ctx - 11) = unat (key_size ctx) - 11"
    using k by (simp add: unat_sub)
  show ?thesis
    using le k11 by (simp add: s d dg)
qed

text \<open>
  The start of the working buffer once sign has written 0x01, the padding and 0x00.
\<close>

lemma sign_buffer_prefix:
  fixes G :: "u8 list"
  assumes "length G = Suc n + Suc m"
  shows "take (Suc (Suc n)) ((take (Suc 0) (G[0 := a]) @ replicate n f @ drop (Suc n) G)
           [Suc n := z]) = a # replicate n f @ [z]"
proof -
  obtain g gs where G: "G = g # gs"
    using assms by (cases G) auto
  have "length (drop (Suc n) G) = Suc m"
    using assms by simp
  then obtain y ys where d: "drop (Suc n) G = y # ys"
    unfolding length_Suc_conv by blast
  have t: "take (Suc 0) (G[0 := a]) = [a]"
    by (simp add: G)
  have "([a] @ replicate n f @ y # ys)[Suc n := z] =
        ((a # replicate n f) @ y # ys)[length (a # replicate n f) := z]"
    by simp
  also have "\<dots> = (a # replicate n f) @ z # ys"
    by (simp only: list_update_length)
  finally have "take (Suc (Suc n)) (([a] @ replicate n f @ y # ys)[Suc n := z]) =
      a # replicate n f @ [z]"
    by simp
  then show ?thesis
    by (simp only: d t)
qed

lemma sign_buffer_start:
  fixes G :: "u8 list"
  assumes "length G = 143"
  shows "take 124 ((take (Suc 0) (G[0 := 1]) @ replicate 122 255 @ drop 123 G)[123 := 0]) =
         1 # replicate 122 255 @ [0]"
proof -
  have "length G = Suc 122 + Suc 19"
    using assms by simp
  from sign_buffer_prefix [OF this, of 1 255 0] show ?thesis
    by (simp only: Suc_numeral Num.add_One_commute num.simps One_nat_def [symmetric]) simp
qed

text \<open>
  Claim C4. The block that sign hands to the inner engine is to be 0x01, the padding,
  0x00, the DER prefix and the caller's message. Sign bounds the message by the test
  \<open>src_len + digest_size > key_size - 11\<close>, whose sum wraps around in \<open>unsigned int\<close>:
  with a key of 128 bytes and sha256, a message of 4294967280 bytes passes it, because
  0xFFFFFFF0 + 19 is 3. Sign allocates a working buffer of 143 bytes and returns 0, and
  the inner engine is given 127 bytes that are 0x01, 122 bytes 0xFF, 0x00 and the first
  three bytes of the prefix: not the whole prefix, and no byte of the message.
\<close>

theorem sign_src_len_wraps:
  "hash_name (test_ctx 128 (Some ''sha256'')) = Some ''sha256'' \<and>
   rsa_lookup_asn1 ''sha256'' = Some (asn1_entry ''sha256'' rsa_digest_info_sha256) \<and>
   src_len (test_req long_message 128 0) = 0xFFFFFFF0 \<and>
   length (src (test_req long_message 128 0)) = unat (src_len (test_req long_message 128 0)) \<and>
   pkcs1pad_sign_setup test_env (test_ctx 128 (Some ''sha256'')) (test_req long_message 128 0) \<noteq>
     Early (- EOVERFLOW) (test_req long_message 128 0) \<and>
   map_option fst (pkcs1pad_sign test_env (test_alg 0) (test_ctx 128 (Some ''sha256''))
      (test_req long_message 128 0)) = Some 0 \<and>
   map_option (hd \<circ> trace \<circ> snd) (pkcs1pad_sign test_env (test_alg 0)
      (test_ctx 128 (Some ''sha256'')) (test_req long_message 128 0)) =
     Some (Kmalloc 143 GFP_ATOMIC) \<and>
   map_option (c_src_len \<circ> child_req \<circ> snd) (pkcs1pad_sign test_env (test_alg 0)
      (test_ctx 128 (Some ''sha256'')) (test_req long_message 128 0)) = Some 127 \<and>
   map_option (take 127 \<circ> c_src \<circ> child_req \<circ> snd) (pkcs1pad_sign test_env (test_alg 0)
      (test_ctx 128 (Some ''sha256'')) (test_req long_message 128 0)) =
     Some (0x01 # replicate 122 0xff @ [0x00, 0x30, 0x31, 0x30])"
  by (simp add: pkcs1pad_sign_def pkcs1pad_sign_setup_def pkcs1pad_encrypt_sign_complete_def
      lookup_sha256 length_long_message test_defs eval_defs errno_defs asn1_entry_def
      rsa_digest_info_sha256_def sign_buffer_start)

theorem sign_src_len_wraps_witness:
  "map_option fst (pkcs1pad_sign test_env (test_alg 0) (test_ctx 128 (Some ''sha256''))
      (test_req long_message 128 0)) \<noteq> Some (- EOVERFLOW)"
  using sign_src_len_wraps by (auto simp: errno_defs)

subsection \<open>The scans of decrypt and verify\<close>

lemma unat_of_nat_u32: "n < 2 ^ 32 \<Longrightarrow> unat (of_nat n :: u32) = n"
  by (simp add: unat_of_nat)

lemma unat_u32_less: "unat (w :: u32) < 2 ^ 32"
  using unsigned_less [of w, where 'a = nat] by simp

lemma scan_zero_eq:
  "unat n \<le> length out \<Longrightarrow>
   scan_zero out n pos =
     Some (of_nat (unat pos +
       length (takeWhile (\<lambda>b. b \<noteq> 0) (drop (unat pos) (take (unat n) out)))))"
proof (induction out n pos rule: scan_zero.induct)
  case (1 out n pos)
  show ?case
  proof (cases "pos < n")
    case False
    then have "drop (unat pos) (take (unat n) out) = []"
      by (simp add: word_less_nat_alt)
    then show ?thesis
      using False by (simp add: scan_zero.simps [of out n pos])
  next
    case True
    then have lt: "unat pos < unat n" and inc: "unat (pos + 1) = Suc (unat pos)"
      by (simp_all add: word_less_nat_alt u32_inc)
    have g: "buf_get out pos = Some (out ! unat pos)"
      using lt "1.prems" by (simp add: buf_get_def)
    have d: "drop (unat pos) (take (unat n) out) =
        out ! unat pos # drop (Suc (unat pos)) (take (unat n) out)"
      using lt "1.prems" by (simp add: Cons_nth_drop_Suc [symmetric])
    show ?thesis
    proof (cases "out ! unat pos = 0")
      case z: True
      show ?thesis
        using True g z by (simp add: scan_zero.simps [of out n pos] d)
    next
      case nz: False
      have "scan_zero out n pos = scan_zero out n (pos + 1)"
        using True g nz by (simp add: scan_zero.simps [of out n pos])
      also have "\<dots> = Some (of_nat (Suc (unat pos) +
          length (takeWhile (\<lambda>b. b \<noteq> 0) (drop (Suc (unat pos)) (take (unat n) out)))))"
        using "1.IH" [OF True g nz "1.prems"] by (simp only: inc)
      finally show ?thesis
        using nz by (simp add: d)
    qed
  qed
qed

lemma scan_ff_eq:
  "unat n \<le> length out \<Longrightarrow>
   scan_ff out n pos =
     Some (of_nat (unat pos +
       length (takeWhile (\<lambda>b. b = 0xff) (drop (unat pos) (take (unat n) out)))))"
proof (induction out n pos rule: scan_ff.induct)
  case (1 out n pos)
  show ?case
  proof (cases "pos < n")
    case False
    then have "drop (unat pos) (take (unat n) out) = []"
      by (simp add: word_less_nat_alt)
    then show ?thesis
      using False by (simp add: scan_ff.simps [of out n pos])
  next
    case True
    then have lt: "unat pos < unat n" and inc: "unat (pos + 1) = Suc (unat pos)"
      by (simp_all add: word_less_nat_alt u32_inc)
    have g: "buf_get out pos = Some (out ! unat pos)"
      using lt "1.prems" by (simp add: buf_get_def)
    have d: "drop (unat pos) (take (unat n) out) =
        out ! unat pos # drop (Suc (unat pos)) (take (unat n) out)"
      using lt "1.prems" by (simp add: Cons_nth_drop_Suc [symmetric])
    show ?thesis
    proof (cases "out ! unat pos = 0xff")
      case nz: False
      show ?thesis
        using True g nz by (simp add: scan_ff.simps [of out n pos] d)
    next
      case z: True
      have "scan_ff out n pos = scan_ff out n (pos + 1)"
        using True g z by (simp add: scan_ff.simps [of out n pos])
      also have "\<dots> = Some (of_nat (Suc (unat pos) +
          length (takeWhile (\<lambda>b. b = 0xff) (drop (Suc (unat pos)) (take (unat n) out)))))"
        using "1.IH" [OF True g _ "1.prems"] z by (simp only: inc)
      finally show ?thesis
        using z by (simp add: d)
    qed
  qed
qed

lemma sep_index_bounds:
  "1 \<le> sep_index P out n" "sep_index P out n \<le> max 1 n"
proof -
  show "1 \<le> sep_index P out n"
    by (simp add: sep_index_def)
  have "length (takeWhile P (drop 1 (take n out))) \<le> length (drop 1 (take n out))"
    by (rule length_takeWhile_le)
  then show "sep_index P out n \<le> max 1 n"
    by (simp add: sep_index_def)
qed

lemma sep_index_stop:
  assumes "sep_index P out n < n" "n \<le> length out"
  shows "\<not> P (out ! sep_index P out n)"
proof -
  let ?xs = "drop 1 (take n out)"
  have l: "length (takeWhile P ?xs) < length ?xs"
    using assms by (simp add: sep_index_def)
  then have "\<not> P (?xs ! length (takeWhile P ?xs))"
    by (rule nth_length_takeWhile)
  moreover have "?xs ! length (takeWhile P ?xs) = out ! (1 + length (takeWhile P ?xs))"
    using l assms(2) by simp
  ultimately show ?thesis
    by (simp add: sep_index_def)
qed

lemma sep_index_before:
  assumes "1 \<le> i" "i < sep_index P out n" "n \<le> length out"
  shows "P (out ! i)"
proof -
  define xs where "xs = drop 1 (take n out)"
  define j where "j = i - 1"
  have j: "j < length (takeWhile P xs)"
    using assms(1,2) by (simp add: sep_index_def xs_def j_def)
  have "takeWhile P xs ! j \<in> set (takeWhile P xs)"
    using j by (rule nth_mem)
  then have p: "P (takeWhile P xs ! j)"
    by (rule set_takeWhileD [THEN conjunct2])
  have e: "takeWhile P xs ! j = xs ! j"
    using j by (rule takeWhile_nth)
  have "length (takeWhile P xs) \<le> length xs"
    by (rule length_takeWhile_le)
  with j have jl: "j < length xs"
    by (rule less_le_trans)
  then have "Suc j < n"
    using assms(3) by (simp add: xs_def)
  then have "xs ! j = out ! Suc j"
    using assms(3) by (simp add: xs_def)
  moreover have "Suc j = i"
    using assms(1) by (simp add: j_def)
  ultimately show ?thesis
    using p e by simp
qed

lemma key_minus_1: "k \<noteq> 0 \<Longrightarrow> unat (k - 1) = unat k - 1" for k :: u32
  by unat_arith

lemma scan_zero_sep:
  assumes "length out = unat k" "k \<noteq> 0"
  shows "scan_zero out (k - 1) 1 = Some (of_nat (sep_index (\<lambda>b. b \<noteq> 0) out (unat k - 1)))"
  using scan_zero_eq [of "k - 1" out 1] assms
  by (simp add: key_minus_1 sep_index_def)

lemma scan_ff_sep:
  assumes "length out = unat k" "k \<noteq> 0"
  shows "scan_ff out (k - 1) 1 = Some (of_nat (sep_index (\<lambda>b. b = 0xff) out (unat k - 1)))"
  using scan_ff_eq [of "k - 1" out 1] assms
  by (simp add: key_minus_1 sep_index_def)

lemma sep_word:
  fixes k :: u32 and P :: "u8 \<Rightarrow> bool" and out :: "u8 list"
  assumes "k \<noteq> 0"
  defines "S \<equiv> sep_index P out (unat k - 1)"
  shows "unat (of_nat S :: u32) = S"
    and "(of_nat S :: u32) < 9 \<longleftrightarrow> S < 9"
    and "(of_nat S :: u32) = k - 1 \<longleftrightarrow> S = unat k - 1"
    and "unat ((of_nat S :: u32) + 1) = S + 1"
proof -
  have "S \<le> max 1 (unat k - 1)"
    unfolding S_def by (rule sep_index_bounds)
  moreover have "0 < unat k"
    using assms(1) by (simp add: unat_gt_0)
  ultimately have "S < unat k \<or> S = 1"
    by (auto simp: max_def split: if_splits)
  then have lt: "S < 2 ^ 32" and lt1: "S + 1 < 2 ^ 32"
    using unat_u32_less [of k] by auto
  show u: "unat (of_nat S :: u32) = S"
    using lt by (rule unat_of_nat_u32)
  show "(of_nat S :: u32) < 9 \<longleftrightarrow> S < 9"
    by (simp add: word_less_nat_alt u)
  show "(of_nat S :: u32) = k - 1 \<longleftrightarrow> S = unat k - 1"
    using assms(1) by (simp add: word_unat_eq_iff u key_minus_1)
  have "unat (of_nat (S + 1) :: u32) = S + 1"
    using lt1 by (rule unat_of_nat_u32)
  then show "unat ((of_nat S :: u32) + 1) = S + 1"
    by (simp add: add.commute)
qed




lemma decrypt_complete_parse:
  assumes "out_buf req = Some out" "length out = unat (key_size ctx)" "key_size ctx \<noteq> 0"
    and "c_dst_len (child_req req) = key_size ctx - 1"
  shows "pkcs1pad_decrypt_complete ctx req 0 =
    (if out ! 0 \<noteq> 0x02 \<or> sep_index (\<lambda>b. b \<noteq> 0) out (unat (key_size ctx) - 1) < 9 \<or>
        sep_index (\<lambda>b. b \<noteq> 0) out (unat (key_size ctx) - 1) = unat (key_size ctx) - 1
     then complete_done req (- EINVAL)
     else complete_copy req out
            (of_nat (sep_index (\<lambda>b. b \<noteq> 0) out (unat (key_size ctx) - 1)) + 1))"
proof -
  have g: "buf_get out 0 = Some (out ! 0)"
    using assms(2,3) by (simp add: buf_get_def unat_gt_0)
  show ?thesis
    unfolding pkcs1pad_decrypt_complete_def Let_def
    using sep_word(2,3) [OF assms(3), of "\<lambda>b. b \<noteq> 0" out]
    by (simp add: assms(1,4) g scan_zero_sep [OF assms(2,3)] errno_defs)
qed




lemma verify_complete_parse:
  fixes out :: "u8 list" and ctx :: "'c pkcs1pad_ctx"
  assumes "out_buf req = Some out" "length out = unat (key_size ctx)" "key_size ctx \<noteq> 0"
    and "c_dst_len (child_req req) = key_size ctx - 1"
  defines "S \<equiv> sep_index (\<lambda>b. b = 0xff) out (unat (key_size ctx) - 1)"
  shows "pkcs1pad_verify_complete ctx req 0 =
    (if out ! 0 \<noteq> 0x01 \<or> S < 9 \<or> S = unat (key_size ctx) - 1 \<or> out ! S \<noteq> 0x00
     then complete_done req (- EBADMSG)
     else case hash_name ctx of
        None \<Rightarrow> complete_copy req out (of_nat S + 1)
      | Some h \<Rightarrow>
          (case rsa_lookup_asn1 h of
             None \<Rightarrow> complete_done req (- EBADMSG)
           | Some di \<Rightarrow>
               (case memcmp_eq out (S + 1) (tmpl_data di) (tmpl_size di) of
                  None \<Rightarrow> None
                | Some same \<Rightarrow>
                    if \<not> same then complete_done req (- EBADMSG)
                    else complete_copy req out (of_nat S + 1 + of_nat (tmpl_size di)))))"
proof -
  have g: "buf_get out 0 = Some (out ! 0)"
    using assms(2,3) by (simp add: buf_get_def unat_gt_0)
  note w = sep_word [OF assms(3), of "\<lambda>b. b = 0xff" out, folded S_def]
  have "S \<le> max 1 (unat (key_size ctx) - 1)"
    unfolding S_def by (rule sep_index_bounds)
  then have gs: "buf_get out (of_nat S) = Some (out ! S)" if "\<not> S < 9"
    using that assms(2) by (simp add: buf_get_def w(1))
  show ?thesis
    unfolding pkcs1pad_verify_complete_def Let_def
    using w(2,3,4) gs
    by (simp add: assms(1,4) g scan_ff_sep [OF assms(2,3), folded S_def] errno_defs
        cong: option.case_cong)
qed

lemma complete_copy_status:
  "complete_copy req out p = Some (e, st) \<Longrightarrow>
     dst_len st = c_dst_len (child_req req) - p \<and>
     (e = 0 \<or> e = - EOVERFLOW) \<and>
     (e = 0 \<longleftrightarrow> \<not> dst_len req < c_dst_len (child_req req) - p)"
  by (auto simp: complete_copy_def complete_done_def Let_def errno_defs
      split: if_splits option.splits)

lemma complete_copy_total:
  assumes "unat (c_dst_len (child_req req) - p) + unat p \<le> length out"
  shows "\<exists>e st. complete_copy req out p = Some (e, st)"
  using assms
  by (auto simp: complete_copy_def complete_done_def Let_def sg_copy_from_buffer_def
      sg_pcopy_from_buffer_def)

lemma complete_copy_payload:
  assumes "complete_copy req out p = Some (0, st)"
    and "unat (c_dst_len (child_req req) - p) \<le> length (dst req)"
  shows "take (unat (c_dst_len (child_req req) - p)) (dst st) =
         take (unat (c_dst_len (child_req req) - p)) (drop (unat p) out)"
  using assms
  by (auto simp: complete_copy_def complete_done_def Let_def sg_copy_from_buffer_def
      sg_pcopy_from_buffer_def min_def errno_defs split: if_splits)

lemmas complete_defs = pkcs1pad_decrypt_complete_def pkcs1pad_verify_complete_def test_out_def
  scan_zero.simps scan_ff.simps

subsection \<open>Completion of decrypt\<close>

lemma decrypt_complete_error:
  "err \<noteq> 0 \<Longrightarrow> err \<noteq> - EOVERFLOW \<Longrightarrow>
   pkcs1pad_decrypt_complete ctx req err = complete_done req err"
  "pkcs1pad_decrypt_complete ctx req (- EOVERFLOW) = complete_done req (- EINVAL)"
  "c_dst_len (child_req req) \<noteq> key_size ctx - 1 \<Longrightarrow>
   pkcs1pad_decrypt_complete ctx req 0 = complete_done req (- EINVAL)"
  by (simp_all add: pkcs1pad_decrypt_complete_def Let_def errno_defs)

lemma payload_position:
  fixes k :: u32 and out :: "u8 list"
  assumes k: "k \<noteq> 0" and S9: "9 \<le> sep_index P out (unat k - 1)"
    and Sk: "sep_index P out (unat k - 1) \<noteq> unat k - 1"
  defines "S \<equiv> sep_index P out (unat k - 1)"
  shows "S < unat k - 1"
    and "unat (of_nat S + 1 :: u32) = S + 1"
    and "unat (k - 1 - (of_nat S + 1)) = unat k - 2 - S"
proof -
  have "S \<le> max 1 (unat k - 1)"
    unfolding S_def by (rule sep_index_bounds)
  then show lt: "S < unat k - 1"
    using S9 Sk by (auto simp: S_def max_def split: if_splits)
  show u: "unat (of_nat S + 1 :: u32) = S + 1"
    unfolding S_def by (rule sep_word(4) [OF k])
  have "unat (k - 1) = unat k - 1"
    using k by (rule key_minus_1)
  then have "unat (of_nat S + 1 :: u32) \<le> unat (k - 1)"
    using lt u by simp
  then have "(of_nat S + 1 :: u32) \<le> k - 1"
    by (simp add: word_le_nat_alt)
  then have "unat (k - 1 - (of_nat S + 1)) = unat (k - 1) - unat (of_nat S + 1 :: u32)"
    by (rule u32_sub)
  then show "unat (k - 1 - (of_nat S + 1)) = unat k - 2 - S"
    using k by (simp add: u key_minus_1)
qed

lemma decrypt_complete_good:
  fixes ctx :: "'c pkcs1pad_ctx" and out :: "u8 list"
  assumes ob: "out_buf req = Some out" and len: "length out = unat (key_size ctx)"
    and k: "key_size ctx \<noteq> 0"
    and dl: "c_dst_len (child_req req) = key_size ctx - 1" and o0: "out ! 0 = 0x02"
    and S9': "9 \<le> sep_index (\<lambda>b. b \<noteq> 0) out (unat (key_size ctx) - 1)"
    and Sk': "sep_index (\<lambda>b. b \<noteq> 0) out (unat (key_size ctx) - 1) \<noteq> unat (key_size ctx) - 1"
  defines "S \<equiv> sep_index (\<lambda>b. b \<noteq> 0) out (unat (key_size ctx) - 1)"
  shows "S < unat (key_size ctx) - 1 \<and> out ! S = 0x00 \<and>
      (\<exists>e st. pkcs1pad_decrypt_complete ctx req 0 = Some (e, st) \<and>
         unat (dst_len st) = unat (key_size ctx) - 2 - S \<and>
         (e = 0 \<or> e = - EOVERFLOW) \<and>
         (e = 0 \<longleftrightarrow> unat (key_size ctx) - 2 - S \<le> unat (dst_len req)) \<and>
         (e = 0 \<and> unat (key_size ctx) - 2 - S \<le> length (dst req) \<longrightarrow>
            take (unat (key_size ctx) - 2 - S) (dst st) =
            drop (S + 1) (take (unat (key_size ctx) - 1) out)))"
proof -
  let ?k = "key_size ctx"
  let ?p = "of_nat S + 1 :: u32"
  have S9: "9 \<le> S" and Sk: "S \<noteq> unat ?k - 1"
    using S9' Sk' by (simp_all add: S_def)
  note pp = payload_position [OF k S9 [unfolded S_def] Sk [unfolded S_def], folded S_def]
  have z: "out ! S = 0x00"
    using sep_index_stop [of "\<lambda>b. b \<noteq> 0" out "unat ?k - 1"] pp(1) len
    by (simp add: S_def)
  have eq: "pkcs1pad_decrypt_complete ctx req 0 = complete_copy req out ?p"
    using decrypt_complete_parse [OF ob len k dl] o0 S9 Sk
    by (simp add: S_def)
  have n: "unat (c_dst_len (child_req req) - ?p) = unat ?k - 2 - S"
    by (simp only: dl pp(3))
  have "unat (c_dst_len (child_req req) - ?p) + unat ?p \<le> length out"
    using pp(1) by (simp only: n pp(2) len)
  then obtain e st where c: "complete_copy req out ?p = Some (e, st)"
    using complete_copy_total by blast
  note s = complete_copy_status [OF c]
  have d: "unat (dst_len st) = unat ?k - 2 - S"
    using s n by simp
  have e0: "e = 0 \<longleftrightarrow> unat ?k - 2 - S \<le> unat (dst_len req)"
    using s n by (simp add: word_less_nat_alt not_less)
  have pl: "take (unat ?k - 2 - S) (dst st) = drop (S + 1) (take (unat ?k - 1) out)"
    if "e = 0" "unat ?k - 2 - S \<le> length (dst req)"
  proof -
    have "take (unat ?k - 2 - S) (dst st) = take (unat ?k - 2 - S) (drop (unat ?p) out)"
      using complete_copy_payload [of req out ?p st] c that by (simp only: n)
    also have "\<dots> = drop (S + 1) (take (unat ?k - 1) out)"
      using pp(1) by (simp add: pp(2) drop_take)
    finally show ?thesis .
  qed
  show ?thesis
    using pp(1) z c s d e0 pl by (auto simp: eq)
qed

text \<open>
  Claim C3, as the code has it. With \<open>out_buf\<close> of \<open>key_size\<close> bytes, the completion of
  decrypt returns \<open>- EINVAL\<close> exactly when the inner engine reported \<open>- EOVERFLOW\<close> or
  \<open>- EINVAL\<close>, or reported success and the inner output length differs from
  \<open>key_size - 1\<close>, or the first output byte is not 0x02, or the first 0x00 from index 1
  on is at an index below 9 or is absent (the scan ends at \<open>key_size - 1\<close>). Otherwise,
  after inner success, the separator index \<open>S\<close> is at least 9 and less than
  \<open>key_size - 1\<close>, the completion returns 0 or, when the caller's destination is too
  short, \<open>- EOVERFLOW\<close>, and the payload has \<open>key_size - 2 - S\<close> bytes, the bytes after
  the separator: none when the separator is the last byte of the block.
\<close>

theorem decrypt_complete_status:
  fixes ctx :: "'c pkcs1pad_ctx" and out :: "u8 list"
  assumes ob: "out_buf req = Some out" and len: "length out = unat (key_size ctx)"
    and k: "key_size ctx \<noteq> 0"
  defines "S \<equiv> sep_index (\<lambda>b. b \<noteq> 0) out (unat (key_size ctx) - 1)"
  shows "((\<exists>st. pkcs1pad_decrypt_complete ctx req err = Some (- EINVAL, st)) \<longleftrightarrow>
           err = - EOVERFLOW \<or> err = - EINVAL \<or>
           (err = 0 \<and> (c_dst_len (child_req req) \<noteq> key_size ctx - 1 \<or> out ! 0 \<noteq> 0x02 \<or>
              S < 9 \<or> S = unat (key_size ctx) - 1))) \<and>
         (err = 0 \<and> c_dst_len (child_req req) = key_size ctx - 1 \<and> out ! 0 = 0x02 \<and>
          9 \<le> S \<and> S \<noteq> unat (key_size ctx) - 1 \<longrightarrow>
            S < unat (key_size ctx) - 1 \<and> out ! S = 0x00 \<and>
            (\<exists>e st. pkcs1pad_decrypt_complete ctx req err = Some (e, st) \<and>
               unat (dst_len st) = unat (key_size ctx) - 2 - S \<and>
               (e = 0 \<or> e = - EOVERFLOW) \<and>
               (e = 0 \<longleftrightarrow> unat (key_size ctx) - 2 - S \<le> unat (dst_len req)) \<and>
               (e = 0 \<and> unat (key_size ctx) - 2 - S \<le> length (dst req) \<longrightarrow>
                  take (unat (key_size ctx) - 2 - S) (dst st) =
                  drop (S + 1) (take (unat (key_size ctx) - 1) out))))"
proof -
  let ?k = "key_size ctx"
  let ?p = "of_nat S + 1 :: u32"
  have good: "S < unat ?k - 1 \<and> out ! S = 0x00 \<and>
      (\<exists>e st. pkcs1pad_decrypt_complete ctx req 0 = Some (e, st) \<and>
         unat (dst_len st) = unat ?k - 2 - S \<and>
         (e = 0 \<or> e = - EOVERFLOW) \<and>
         (e = 0 \<longleftrightarrow> unat ?k - 2 - S \<le> unat (dst_len req)) \<and>
         (e = 0 \<and> unat ?k - 2 - S \<le> length (dst req) \<longrightarrow>
            take (unat ?k - 2 - S) (dst st) = drop (S + 1) (take (unat ?k - 1) out)))"
    if dl: "c_dst_len (child_req req) = ?k - 1" and o0: "out ! 0 = 0x02"
      and S9: "9 \<le> S" and Sk: "S \<noteq> unat ?k - 1"
    using decrypt_complete_good [OF ob len k dl o0 S9 [unfolded S_def] Sk [unfolded S_def]]
    by (simp only: S_def)
  have inv: "(\<exists>st. pkcs1pad_decrypt_complete ctx req err = Some (- EINVAL, st)) \<longleftrightarrow>
      err = - EOVERFLOW \<or> err = - EINVAL \<or>
      (err = 0 \<and> (c_dst_len (child_req req) \<noteq> ?k - 1 \<or> out ! 0 \<noteq> 0x02 \<or>
         S < 9 \<or> S = unat ?k - 1))"
  proof (cases "err = 0")
    case False
    then show ?thesis
      using decrypt_complete_error(1) [of err ctx req] decrypt_complete_error(2) [of ctx req]
      by (cases "err = - EOVERFLOW") (auto simp: complete_done_def)
  next
    case True
    show ?thesis
    proof (cases "c_dst_len (child_req req) \<noteq> ?k - 1 \<or> out ! 0 \<noteq> 0x02 \<or> S < 9 \<or>
        S = unat ?k - 1")
      case bad: True
      have "pkcs1pad_decrypt_complete ctx req 0 = complete_done req (- EINVAL)"
      proof (cases "c_dst_len (child_req req) = ?k - 1")
        case False
        then show ?thesis by (rule decrypt_complete_error(3))
      next
        case dl: True
        show ?thesis
          using decrypt_complete_parse [OF ob len k dl] bad dl by (simp add: S_def)
      qed
      then show ?thesis
        using True bad by (simp add: complete_done_def)
    next
      case ok: False
      then obtain e st where "pkcs1pad_decrypt_complete ctx req 0 = Some (e, st)"
        and "e = 0 \<or> e = - EOVERFLOW"
        using good by force
      then show ?thesis
        using True ok by (auto simp: errno_defs)
    qed
  qed
  show ?thesis
    using inv good by blast
qed

theorem decrypt_complete_status_witness:
  "out_buf (test_out 12 [0x02, 1, 1, 1, 1, 1, 1, 1, 1, 0x00, 0x41, 0xaa]) =
     Some [0x02, 1, 1, 1, 1, 1, 1, 1, 1, 0x00, 0x41, 0xaa] \<and>
   length [0x02, 1, 1, 1, 1, 1, 1, 1, 1, 0x00, 0x41, 0xaa :: u8] =
     unat (key_size (test_ctx 12 None)) \<and>
   key_size (test_ctx 12 None) \<noteq> 0 \<and>
   c_dst_len (child_req (test_out 12 [0x02, 1, 1, 1, 1, 1, 1, 1, 1, 0x00, 0x41, 0xaa])) =
     key_size (test_ctx 12 None) - 1 \<and>
   sep_index (\<lambda>b. b \<noteq> 0) [0x02, 1, 1, 1, 1, 1, 1, 1, 1, 0x00, 0x41, 0xaa] 11 = 9 \<and>
   map_option fst (pkcs1pad_decrypt_complete (test_ctx 12 None)
      (test_out 12 [0x02, 1, 1, 1, 1, 1, 1, 1, 1, 0x00, 0x41, 0xaa]) 0) = Some 0 \<and>
   map_option (dst_len \<circ> snd) (pkcs1pad_decrypt_complete (test_ctx 12 None)
      (test_out 12 [0x02, 1, 1, 1, 1, 1, 1, 1, 1, 0x00, 0x41, 0xaa]) 0) = Some 1 \<and>
   map_option (take 1 \<circ> dst \<circ> snd) (pkcs1pad_decrypt_complete (test_ctx 12 None)
      (test_out 12 [0x02, 1, 1, 1, 1, 1, 1, 1, 1, 0x00, 0x41, 0xaa]) 0) = Some [0x41]"
  using decrypt_complete_status [of "test_out 12 [0x02, 1, 1, 1, 1, 1, 1, 1, 1, 0x00, 0x41, 0xaa]"
      "[0x02, 1, 1, 1, 1, 1, 1, 1, 1, 0x00, 0x41, 0xaa]" "test_ctx 12 None" 0]
  by (simp add: complete_defs test_defs eval_defs errno_defs sep_index_def)

text \<open>
  The claim C3 as stated says that the payload recovered on success is not empty. It
  fails for a key of 11 bytes and the block 0x02, eight bytes 0x01, 0x00: the separator
  is at index 9, the completion returns 0 and the payload has 0 bytes.
\<close>

theorem decrypt_complete_empty_payload:
  "map_option fst (pkcs1pad_decrypt_complete (test_ctx 11 None)
      (test_out 11 [0x02, 1, 1, 1, 1, 1, 1, 1, 1, 0x00, 0xaa]) 0) = Some 0 \<and>
   map_option (dst_len \<circ> snd) (pkcs1pad_decrypt_complete (test_ctx 11 None)
      (test_out 11 [0x02, 1, 1, 1, 1, 1, 1, 1, 1, 0x00, 0xaa]) 0) = Some 0"
  by (simp add: complete_defs test_defs eval_defs errno_defs)

subsection \<open>Completion of verify\<close>

lemma memcmp_eq_differs:
  "n \<le> length data \<Longrightarrow>
     memcmp_eq buf off data n = Some False \<longleftrightarrow>
     (\<exists>i<n. off + i < length buf \<and> buf ! (off + i) \<noteq> data ! i)"
proof (induction n arbitrary: off data)
  case 0
  then show ?case by simp
next
  case (Suc n)
  then obtain d ds where d: "data = d # ds" and n: "n \<le> length ds"
    by (cases data) auto
  show ?case
  proof (cases "off < length buf \<and> buf ! off = d")
    case True
    have "(\<exists>i<Suc n. off + i < length buf \<and> buf ! (off + i) \<noteq> (d # ds) ! i) \<longleftrightarrow>
          (\<exists>j<n. Suc off + j < length buf \<and> buf ! (Suc off + j) \<noteq> ds ! j)"
      using True by (auto simp: less_Suc_eq_0_disj)
    then show ?thesis
      using True Suc.IH [OF n, of "Suc off"] by (simp add: d)
  next
    case False
    then show ?thesis
      by (auto simp: d intro: exI [of _ 0])
  qed
qed

lemma memcmp_eq_template:
  assumes "rsa_lookup_asn1 h = Some di"
  shows "memcmp_eq buf off (tmpl_data di) (tmpl_size di) = Some False \<longleftrightarrow>
         (\<exists>i<tmpl_size di. off + i < length buf \<and> buf ! (off + i) \<noteq> tmpl_data di ! i)"
  using rsa_lookup_asn1_size(1) [OF assms] by (simp add: memcmp_eq_differs)

text \<open>
  Claim C1, as the code has it. After inner success with output length \<open>key_size - 1\<close>
  (and \<open>out_buf\<close> of \<open>key_size\<close> bytes), with \<open>S\<close> the index of the first byte from index
  1 on that is not 0xFF: when the block is malformed (first byte not 0x01, \<open>S\<close> below 9
  so that fewer than 8 bytes 0xFF precede it, only 0xFF up to the end, or the byte at
  \<open>S\<close> not 0x00) the completion of verify returns \<open>- EBADMSG\<close>; it returns
  \<open>- EBADMSG\<close> exactly when the block is malformed, or a hash name is configured that
  the table does not have, or a hash name is configured and some byte of \<open>out_buf\<close> after
  the separator differs from the byte of the DER prefix at the same offset (also when
  fewer bytes than the prefix has follow the separator); it never returns \<open>- EINVAL\<close>.
\<close>

theorem verify_complete_status:
  fixes ctx :: "'c pkcs1pad_ctx" and out :: "u8 list"
  assumes ob: "out_buf req = Some out" and len: "length out = unat (key_size ctx)"
    and k: "key_size ctx \<noteq> 0" and dl: "c_dst_len (child_req req) = key_size ctx - 1"
  defines "S \<equiv> sep_index (\<lambda>b. b = 0xff) out (unat (key_size ctx) - 1)"
  shows "(out ! 0 \<noteq> 0x01 \<or> S < 9 \<or> S = unat (key_size ctx) - 1 \<or> out ! S \<noteq> 0x00 \<longrightarrow>
            pkcs1pad_verify_complete ctx req 0 = complete_done req (- EBADMSG)) \<and>
         ((\<exists>st. pkcs1pad_verify_complete ctx req 0 = Some (- EBADMSG, st)) \<longleftrightarrow>
            out ! 0 \<noteq> 0x01 \<or> S < 9 \<or> S = unat (key_size ctx) - 1 \<or> out ! S \<noteq> 0x00 \<or>
            (\<exists>h. hash_name ctx = Some h \<and>
               (rsa_lookup_asn1 h = None \<or>
                (\<exists>di. rsa_lookup_asn1 h = Some di \<and>
                   (\<exists>i<tmpl_size di. S + 1 + i < length out \<and>
                      out ! (S + 1 + i) \<noteq> tmpl_data di ! i))))) \<and>
         (\<forall>st. pkcs1pad_verify_complete ctx req 0 \<noteq> Some (- EINVAL, st))"
proof -
  note p = verify_complete_parse [OF ob len k dl, folded S_def]
  have cc: "e = 0 \<or> e = - EOVERFLOW" if "complete_copy req out q = Some (e, st)" for q e st
    using complete_copy_status [OF that] by blast
  have m: "pkcs1pad_verify_complete ctx req 0 = complete_done req (- EBADMSG)"
    if "out ! 0 \<noteq> 0x01 \<or> S < 9 \<or> S = unat (key_size ctx) - 1 \<or> out ! S \<noteq> 0x00"
    using that by (simp add: p)
  have b0: "(\<exists>st. pkcs1pad_verify_complete ctx req 0 = Some (- EBADMSG, st)) \<longleftrightarrow>
            out ! 0 \<noteq> 0x01 \<or> S < 9 \<or> S = unat (key_size ctx) - 1 \<or> out ! S \<noteq> 0x00 \<or>
            (\<exists>h. hash_name ctx = Some h \<and>
               (rsa_lookup_asn1 h = None \<or>
                (\<exists>di. rsa_lookup_asn1 h = Some di \<and>
                   memcmp_eq out (S + 1) (tmpl_data di) (tmpl_size di) = Some False)))"
  proof (cases "out ! 0 \<noteq> 0x01 \<or> S < 9 \<or> S = unat (key_size ctx) - 1 \<or> out ! S \<noteq> 0x00")
    case True
    then show ?thesis
      using m by (auto simp: complete_done_def)
  next
    case False
    then show ?thesis
      by (auto simp: p complete_done_def errno_defs dest!: cc split: option.splits)
  qed
  have e: "(\<exists>di. rsa_lookup_asn1 h = Some di \<and>
              memcmp_eq out (S + 1) (tmpl_data di) (tmpl_size di) = Some False) \<longleftrightarrow>
           (\<exists>di. rsa_lookup_asn1 h = Some di \<and>
              (\<exists>i<tmpl_size di. S + 1 + i < length out \<and>
                 out ! (S + 1 + i) \<noteq> tmpl_data di ! i))" for h
    using memcmp_eq_template [of h _ out "S + 1"] by blast
  have b: "(\<exists>st. pkcs1pad_verify_complete ctx req 0 = Some (- EBADMSG, st)) \<longleftrightarrow>
            out ! 0 \<noteq> 0x01 \<or> S < 9 \<or> S = unat (key_size ctx) - 1 \<or> out ! S \<noteq> 0x00 \<or>
            (\<exists>h. hash_name ctx = Some h \<and>
               (rsa_lookup_asn1 h = None \<or>
                (\<exists>di. rsa_lookup_asn1 h = Some di \<and>
                   (\<exists>i<tmpl_size di. S + 1 + i < length out \<and>
                      out ! (S + 1 + i) \<noteq> tmpl_data di ! i))))"
    unfolding b0 e ..
  have i: "pkcs1pad_verify_complete ctx req 0 \<noteq> Some (- EINVAL, st)" for st
    by (auto simp: p complete_done_def errno_defs dest!: cc split: option.splits if_splits)
  show ?thesis
    using m b i by blast
qed

theorem verify_complete_status_witness:
  "out_buf (test_out 12 [0x01, 0xff, 0xff, 0xff, 0xff, 0xff, 0xff, 0xff, 0xff, 0x00, 0x41, 0xaa]) =
     Some [0x01, 0xff, 0xff, 0xff, 0xff, 0xff, 0xff, 0xff, 0xff, 0x00, 0x41, 0xaa] \<and>
   length [0x01, 0xff, 0xff, 0xff, 0xff, 0xff, 0xff, 0xff, 0xff, 0x00, 0x41, 0xaa :: u8] =
     unat (key_size (test_ctx 12 (Some ''sha256''))) \<and>
   key_size (test_ctx 12 (Some ''sha256'')) \<noteq> 0 \<and>
   c_dst_len (child_req
      (test_out 12 [0x01, 0xff, 0xff, 0xff, 0xff, 0xff, 0xff, 0xff, 0xff, 0x00, 0x41, 0xaa])) =
     key_size (test_ctx 12 (Some ''sha256'')) - 1 \<and>
   sep_index (\<lambda>b. b = 0xff)
      [0x01, 0xff, 0xff, 0xff, 0xff, 0xff, 0xff, 0xff, 0xff, 0x00, 0x41, 0xaa] 11 = 9 \<and>
   rsa_lookup_asn1 ''sha256'' = Some (asn1_entry ''sha256'' rsa_digest_info_sha256) \<and>
   [0x01, 0xff, 0xff, 0xff, 0xff, 0xff, 0xff, 0xff, 0xff, 0x00, 0x41, 0xaa :: u8] ! 10 \<noteq>
     rsa_digest_info_sha256 ! 0 \<and>
   map_option fst (pkcs1pad_verify_complete (test_ctx 12 (Some ''sha256''))
      (test_out 12 [0x01, 0xff, 0xff, 0xff, 0xff, 0xff, 0xff, 0xff, 0xff, 0x00, 0x41, 0xaa]) 0) =
     Some (- EBADMSG) \<and>
   sep_index (\<lambda>b. b = 0xff)
      [0x01, 0xff, 0xff, 0xff, 0xff, 0xff, 0xff, 0xff, 0x00, 0x41, 0x42, 0xaa] 11 < 9 \<and>
   pkcs1pad_verify_complete (test_ctx 12 None)
      (test_out 12 [0x01, 0xff, 0xff, 0xff, 0xff, 0xff, 0xff, 0xff, 0x00, 0x41, 0x42, 0xaa]) 0 =
     complete_done
      (test_out 12 [0x01, 0xff, 0xff, 0xff, 0xff, 0xff, 0xff, 0xff, 0x00, 0x41, 0x42, 0xaa])
      (- EBADMSG)"
proof -
  let ?o = "[0x01, 0xff, 0xff, 0xff, 0xff, 0xff, 0xff, 0xff, 0xff, 0x00, 0x41, 0xaa] :: u8 list"
  let ?c = "test_ctx 12 (Some ''sha256'')"
  have l: "rsa_lookup_asn1 ''sha256'' = Some (asn1_entry ''sha256'' rsa_digest_info_sha256)"
    by (simp add: rsa_lookup_asn1_def rsa_asn1_templates_def asn1_entry_def)
  have s: "sep_index (\<lambda>b. b = 0xff) ?o 11 = 9"
    by (simp add: sep_index_def)
  have d: "?o ! 10 \<noteq> rsa_digest_info_sha256 ! 0"
    by (simp add: rsa_digest_info_sha256_def)
  have "\<exists>h. hash_name ?c = Some h \<and>
          (rsa_lookup_asn1 h = None \<or>
           (\<exists>di. rsa_lookup_asn1 h = Some di \<and>
              (\<exists>i<tmpl_size di.
                 sep_index (\<lambda>b. b = 0xff) ?o (unat (key_size ?c) - 1) + 1 + i < length ?o \<and>
                 ?o ! (sep_index (\<lambda>b. b = 0xff) ?o (unat (key_size ?c) - 1) + 1 + i) \<noteq>
                   tmpl_data di ! i)))"
    using d
    by (intro exI [of _ "''sha256''"] conjI disjI2
        exI [of _ "asn1_entry ''sha256'' rsa_digest_info_sha256"] exI [of _ 0])
      (simp_all add: l s test_ctx_def asn1_entry_def rsa_digest_info_sha256_def)
  then have "\<exists>st. pkcs1pad_verify_complete ?c (test_out 12 ?o) 0 = Some (- EBADMSG, st)"
    using verify_complete_status [of "test_out 12 ?o" ?o ?c]
    by (simp add: test_out_def test_defs)
  then show ?thesis
    using verify_complete_status
      [of "test_out 12 [0x01, 0xff, 0xff, 0xff, 0xff, 0xff, 0xff, 0xff, 0x00, 0x41, 0x42, 0xaa]"
        "[0x01, 0xff, 0xff, 0xff, 0xff, 0xff, 0xff, 0xff, 0x00, 0x41, 0x42, 0xaa]"
        "test_ctx 12 None"] l s d
    by (auto simp: test_out_def test_defs sep_index_def)
qed

text \<open>
  The claim C1 as stated says that a malformed block makes verify complete with
  \<open>- EINVAL\<close>. It fails for a block whose first byte is 0x02: the completion returns
  \<open>- EBADMSG\<close>.
\<close>

theorem verify_complete_wrong_block_type:
  "map_option fst (pkcs1pad_verify_complete (test_ctx 12 None)
      (test_out 12 [0x02, 0xff, 0xff, 0xff, 0xff, 0xff, 0xff, 0xff, 0xff, 0x00, 0x41, 0xaa]) 0) =
     Some (- EBADMSG) \<and>
   - EBADMSG \<noteq> - EINVAL"
  by (simp add: complete_defs test_defs eval_defs errno_defs)

subsection \<open>A hash name that the table does not have\<close>

lemma verify_setup_Ready:
  assumes "key_size ctx \<noteq> 0" "key_size ctx \<le> src_len req"
    and "unat (key_size ctx) \<le> PAGE_SIZE env"
    and "kmalloc_ok env (length (trace req)) (unat (key_size ctx)) (gfp_of (base_flags req))"
  shows "pkcs1pad_verify_setup env ctx req = Ready (req
    \<lparr>child_req := \<lparr>c_src = src req, c_src_len = src_len req, c_dst_len = key_size ctx,
                    c_flags = base_flags req\<rparr>,
     out_buf := Some (map (heap_garbage env (length (trace req))) [0..<unat (key_size ctx)]),
     trace := trace req @ [Kmalloc (unat (key_size ctx)) (gfp_of (base_flags req))]\<rparr>)"
proof -
  have "r\<lparr>c_src := s, c_src_len := a, c_dst_len := b, c_flags := f\<rparr> =
      \<lparr>c_src = s, c_src_len = a, c_dst_len = b, c_flags = f\<rparr>" for r s a b f
    by (cases r) simp
  then show ?thesis
    using assms by (simp add: pkcs1pad_verify_setup_def Let_def kmalloc_def)
qed

lemma verify_complete_unknown_hash:
  assumes h: "hash_name ctx = Some h" "rsa_lookup_asn1 h = None"
    and ob: "out_buf req = Some out" and len: "length out = unat (key_size ctx)"
    and k: "key_size ctx \<noteq> 0"
  shows "\<exists>e. pkcs1pad_verify_complete ctx req err = complete_done req e"
proof (cases "err = 0 \<and> c_dst_len (child_req req) = key_size ctx - 1")
  case False
  then show ?thesis
    by (auto simp: pkcs1pad_verify_complete_def Let_def errno_defs)
next
  case True
  then show ?thesis
    using verify_complete_parse [OF ob len k] h by auto
qed

text \<open>
  Claim C10. With a hash name that \<open>rsa_lookup_asn1\<close> does not find: sign returns
  \<open>- EINVAL\<close> and leaves the request as it is (nothing allocated, the inner engine not
  called); verify, when its checks pass and the allocation succeeds, returns with the
  inner engine called on the caller's source; and the completion of verify on a
  well-formed block (0x01, at least 8 bytes 0xFF, 0x00 before index \<open>key_size - 1\<close>)
  returns \<open>- EBADMSG\<close>.
\<close>

theorem unknown_hash_sign_verify:
  fixes ctx :: "'c pkcs1pad_ctx" and out :: "u8 list"
  assumes h: "hash_name ctx = Some h" "rsa_lookup_asn1 h = None"
  defines "S \<equiv> sep_index (\<lambda>b. b = 0xff) out (unat (key_size ctx) - 1)"
  shows "pkcs1pad_sign env A ctx req = Some (- EINVAL, req) \<and>
         (key_size ctx \<noteq> 0 \<and> key_size ctx \<le> src_len req \<and>
          unat (key_size ctx) \<le> PAGE_SIZE env \<and>
          kmalloc_ok env (length (trace req)) (unat (key_size ctx)) (gfp_of (base_flags req)) \<longrightarrow>
            (\<exists>e st. pkcs1pad_verify env A ctx req = Some (e, st) \<and>
               Child_call Verify
                 \<lparr>c_src = src req, c_src_len = src_len req, c_dst_len = key_size ctx,
                  c_flags = base_flags req\<rparr> \<in> set (trace st))) \<and>
         (out_buf st = Some out \<and> length out = unat (key_size ctx) \<and> key_size ctx \<noteq> 0 \<and>
          c_dst_len (child_req st) = key_size ctx - 1 \<and>
          out ! 0 = 0x01 \<and> 9 \<le> S \<and> S < unat (key_size ctx) - 1 \<and> out ! S = 0x00 \<longrightarrow>
            pkcs1pad_verify_complete ctx st 0 = complete_done st (- EBADMSG))"
proof -
  have s: "pkcs1pad_sign env A ctx req = Some (- EINVAL, req)"
    by (simp add: pkcs1pad_sign_def pkcs1pad_sign_setup_def h)
  have v: "\<exists>e st. pkcs1pad_verify env A ctx req = Some (e, st) \<and>
      Child_call Verify
        \<lparr>c_src = src req, c_src_len = src_len req, c_dst_len = key_size ctx,
         c_flags = base_flags req\<rparr> \<in> set (trace st)"
    if a: "key_size ctx \<noteq> 0" "key_size ctx \<le> src_len req" "unat (key_size ctx) \<le> PAGE_SIZE env"
      "kmalloc_ok env (length (trace req)) (unat (key_size ctx)) (gfp_of (base_flags req))"
  proof -
    let ?creq = "\<lparr>c_src = src req, c_src_len = src_len req, c_dst_len = key_size ctx,
         c_flags = base_flags req\<rparr>"
    define st0 where "st0 = req
      \<lparr>child_req := ?creq,
       out_buf := Some (map (heap_garbage env (length (trace req))) [0..<unat (key_size ctx)]),
       trace := trace req @ [Kmalloc (unat (key_size ctx)) (gfp_of (base_flags req))]\<rparr>"
    define reply where "reply = crypto_akcipher_verify A (child ctx) (child_req st0)"
    define st1 where "st1 = child_done st0 Verify reply"
    have r: "pkcs1pad_verify_setup env ctx req = Ready st0"
      unfolding st0_def using a by (rule verify_setup_Ready)
    have t1: "Child_call Verify ?creq \<in> set (trace st1)"
      by (simp add: st1_def child_done_def st0_def)
    obtain ob where ob: "out_buf st1 = Some ob" "length ob = unat (key_size ctx)"
      by (simp add: st1_def child_done_def st0_def)
    obtain e where c: "pkcs1pad_verify_complete ctx st1 (r_err reply) = complete_done st1 e"
      using verify_complete_unknown_hash [OF h ob a(1)] by blast
    have "pkcs1pad_verify env A ctx req = Some (r_err reply, st1) \<or>
        pkcs1pad_verify env A ctx req = complete_done st1 e"
      using c by (simp add: pkcs1pad_verify_def r Let_def reply_def [symmetric] st1_def [symmetric])
    then show ?thesis
      using t1 by (auto simp: complete_done_def)
  qed
  have c: "pkcs1pad_verify_complete ctx st 0 = complete_done st (- EBADMSG)"
    if "out_buf st = Some out" "length out = unat (key_size ctx)" "key_size ctx \<noteq> 0"
      "c_dst_len (child_req st) = key_size ctx - 1"
    using verify_complete_parse [OF that] h by (simp add: S_def)
  show ?thesis
    using s v c by blast
qed

theorem unknown_hash_sign_verify_witness:
  "hash_name (test_ctx 12 (Some ''sha3'')) = Some ''sha3'' \<and>
   rsa_lookup_asn1 ''sha3'' = None \<and>
   pkcs1pad_sign test_env (test_alg 0) (test_ctx 12 (Some ''sha3'')) (test_req [1, 2, 3] 12 0) =
     Some (- EINVAL, test_req [1, 2, 3] 12 0) \<and>
   key_size (test_ctx 12 (Some ''sha3'')) \<le>
     src_len (test_req [0, 0x01, 0xff, 0xff, 0xff, 0xff, 0xff, 0xff, 0xff, 0xff, 0x00, 0x41] 12 0) \<and>
   map_option fst (pkcs1pad_verify test_env (test_alg 0) (test_ctx 12 (Some ''sha3''))
      (test_req [0, 0x01, 0xff, 0xff, 0xff, 0xff, 0xff, 0xff, 0xff, 0xff, 0x00, 0x41] 12 0)) =
     Some (- EBADMSG) \<and>
   map_option (trace \<circ> snd) (pkcs1pad_verify test_env (test_alg 0) (test_ctx 12 (Some ''sha3''))
      (test_req [0, 0x01, 0xff, 0xff, 0xff, 0xff, 0xff, 0xff, 0xff, 0xff, 0x00, 0x41] 12 0)) =
     Some [Kmalloc 12 GFP_ATOMIC,
           Child_call Verify
             \<lparr>c_src = [0, 0x01, 0xff, 0xff, 0xff, 0xff, 0xff, 0xff, 0xff, 0xff, 0x00, 0x41],
              c_src_len = 12, c_dst_len = 12, c_flags = 0\<rparr>,
           Kzfree]"
proof -
  have l: "rsa_lookup_asn1 ''sha3'' = None"
    by (simp add: rsa_lookup_asn1_def rsa_asn1_templates_def asn1_entry_def)
  have h: "hash_name (test_ctx 12 (Some ''sha3'')) = Some ''sha3''"
    by (simp add: test_ctx_def)
  show ?thesis
    using unknown_hash_sign_verify [OF h l, of test_env "test_alg 0" "test_req [1, 2, 3] 12 0"]
      unknown_hash_sign_verify [OF h l, of test_env "test_alg 0"
        "test_req [0, 0x01, 0xff, 0xff, 0xff, 0xff, 0xff, 0xff, 0xff, 0xff, 0x00, 0x41] 12 0"]
    by (simp add: l pkcs1pad_verify_def pkcs1pad_verify_setup_def complete_defs test_defs
        eval_defs errno_defs)
qed

subsection \<open>Round trip of encrypt and decrypt\<close>

lemma decrypt_setup_Ready:
  assumes "key_size ctx \<noteq> 0" "src_len req = key_size ctx"
    and "unat (key_size ctx) \<le> PAGE_SIZE env"
    and "kmalloc_ok env (length (trace req)) (unat (key_size ctx)) (gfp_of (base_flags req))"
  shows "pkcs1pad_decrypt_setup env ctx req = Ready (req
    \<lparr>child_req := \<lparr>c_src = src req, c_src_len = key_size ctx, c_dst_len = key_size ctx,
                    c_flags = base_flags req\<rparr>,
     out_buf := Some (map (heap_garbage env (length (trace req))) [0..<unat (key_size ctx)]),
     trace := trace req @ [Kmalloc (unat (key_size ctx)) (gfp_of (base_flags req))]\<rparr>)"
proof -
  have "r\<lparr>c_src := s, c_src_len := a, c_dst_len := b, c_flags := f\<rparr> =
      \<lparr>c_src = s, c_src_len = a, c_dst_len = b, c_flags = f\<rparr>" for r s a b f
    by (cases r) simp
  then show ?thesis
    using assms by (simp add: pkcs1pad_decrypt_setup_def Let_def kmalloc_def)
qed

lemma sep_index_block:
  assumes "0 \<notin> set ps" "take n out = (x # ps @ [0]) @ pt"
  shows "sep_index (\<lambda>b. b \<noteq> 0) out n = 1 + length ps"
proof -
  have "takeWhile (\<lambda>b. b \<noteq> 0) (ps @ 0 # pt) = takeWhile (\<lambda>b. b \<noteq> 0) ps"
    by (rule takeWhile_tail) simp
  also have "\<dots> = ps"
    using assms(1) by (simp add: takeWhile_eq_all_conv) metis
  finally show ?thesis
    by (simp add: sep_index_def assms(2))
qed

lemma decrypt_block:
  fixes ctx :: "'c pkcs1pad_ctx"
  assumes k: "key_size ctx \<noteq> 0" and sl: "src_len dreq = key_size ctx"
    and page: "unat (key_size ctx) \<le> PAGE_SIZE env"
    and alloc: "kmalloc_ok env (length (trace dreq)) (unat (key_size ctx))
      (gfp_of (base_flags dreq))"
    and rep: "reply = crypto_akcipher_decrypt A (child ctx)
        \<lparr>c_src = src dreq, c_src_len = key_size ctx, c_dst_len = key_size ctx,
         c_flags = base_flags dreq\<rparr>"
    and ok: "r_err reply = 0" "r_dst_len reply = key_size ctx - 1"
    and blk: "take (unat (key_size ctx) - 1) (r_out reply) = (0x02 # ps @ [0x00]) @ pt"
    and ps: "0 \<notin> set ps" "8 \<le> length ps"
    and tot: "length ps + length pt + 2 = unat (key_size ctx) - 1"
    and room: "length pt \<le> unat (dst_len dreq)" "unat (dst_len dreq) \<le> length (dst dreq)"
  shows "\<exists>st. pkcs1pad_decrypt env A ctx dreq = Some (0, st) \<and>
           unat (dst_len st) = length pt \<and> take (length pt) (dst st) = pt"
proof -
  let ?k = "key_size ctx"
  define G where "G = map (heap_garbage env (length (trace dreq))) [0..<unat ?k]"
  define st0 where "st0 = dreq
    \<lparr>child_req := \<lparr>c_src = src dreq, c_src_len = ?k, c_dst_len = ?k, c_flags = base_flags dreq\<rparr>,
     out_buf := Some G,
     trace := trace dreq @ [Kmalloc (unat ?k) (gfp_of (base_flags dreq))]\<rparr>"
  define ob where "ob = take (unat ?k) (r_out reply @ drop (length (r_out reply)) G)"
  define st1 where "st1 = child_done st0 Decrypt reply"
  have r: "pkcs1pad_decrypt_setup env ctx dreq = Ready st0"
    unfolding st0_def G_def using k sl page alloc by (rule decrypt_setup_Ready)
  have cr: "child_req st0 = \<lparr>c_src = src dreq, c_src_len = ?k, c_dst_len = ?k,
      c_flags = base_flags dreq\<rparr>"
    by (simp add: st0_def)
  have rep': "crypto_akcipher_decrypt A (child ctx) (child_req st0) = reply"
    by (simp only: cr rep)
  have d: "pkcs1pad_decrypt env A ctx dreq = pkcs1pad_decrypt_complete ctx st1 0"
    using ok(1) by (simp add: pkcs1pad_decrypt_def r Let_def rep' st1_def errno_defs)
  have ob1: "out_buf st1 = Some ob"
    by (simp add: st1_def child_done_def st0_def ob_def G_def)
  have lr: "unat ?k - 1 \<le> length (r_out reply)"
  proof -
    have "length (take (unat ?k - 1) (r_out reply)) = unat ?k - 1"
      using tot by (simp only: blk) simp
    then show ?thesis by simp
  qed
  have lob: "length ob = unat ?k"
    by (simp add: ob_def G_def)
  have tob: "take (unat ?k - 1) ob = (0x02 # ps @ [0x00]) @ pt"
  proof -
    have "take (unat ?k - 1) ob =
        take (unat ?k - 1) (r_out reply @ drop (length (r_out reply)) G)"
      by (simp add: ob_def min_def)
    also have "\<dots> = take (unat ?k - 1) (r_out reply)"
      using lr by simp
    finally show ?thesis by (simp only: blk)
  qed
  have o0: "ob ! 0 = 0x02"
  proof -
    have "ob ! 0 = take (unat ?k - 1) ob ! 0"
      using tot by simp
    also have "\<dots> = 0x02"
      by (simp only: tob) simp
    finally show ?thesis .
  qed
  have S: "sep_index (\<lambda>b. b \<noteq> 0) ob (unat ?k - 1) = 1 + length ps"
    using ps(1) tob by (rule sep_index_block)
  have dl1: "c_dst_len (child_req st1) = ?k - 1"
    by (simp add: st1_def child_done_def ok(2))
  have S9: "9 \<le> sep_index (\<lambda>b. b \<noteq> 0) ob (unat ?k - 1)"
    by (simp only: S) (use ps(2) in simp)
  have Sk: "sep_index (\<lambda>b. b \<noteq> 0) ob (unat ?k - 1) \<noteq> unat ?k - 1"
    by (simp only: S) (use tot in simp)
  have n: "unat ?k - 2 - (1 + length ps) = length pt"
    using tot by simp
  have dd: "dst st1 = dst dreq" "dst_len st1 = dst_len dreq"
    by (simp_all add: st1_def child_done_def st0_def)
  obtain e st where c: "pkcs1pad_decrypt_complete ctx st1 0 = Some (e, st)"
    and l: "unat (dst_len st) = length pt"
    and e: "e = 0 \<longleftrightarrow> length pt \<le> unat (dst_len dreq)"
    and p: "e = 0 \<and> length pt \<le> length (dst dreq) \<longrightarrow>
      take (length pt) (dst st) = drop (1 + length ps + 1) (take (unat ?k - 1) ob)"
    using decrypt_complete_good [OF ob1 lob k dl1 o0 S9 Sk]
    unfolding S n dd by blast
  have e0: "e = 0"
    using e room(1) by simp
  have "take (length pt) (dst st) = drop (1 + length ps + 1) (take (unat ?k - 1) ob)"
    using p e0 room by simp
  also have "\<dots> = pt"
    by (simp only: tob) simp
  finally show ?thesis
    using c l e0 by (simp add: d)
qed

lemma encrypt_setup_Early:
  "pkcs1pad_encrypt_setup env ctx req = Early e s \<Longrightarrow> e \<noteq> 0"
  by (auto simp: pkcs1pad_encrypt_setup_def Let_def errno_defs
      split: if_splits option.splits)

lemma encrypt_sign_complete_ok:
  fixes ctx :: "'c pkcs1pad_ctx"
  assumes ob: "out_buf st1 = Some ob" and lob: "length ob = unat (key_size ctx)"
    and u: "unat (c_dst_len (child_req st1)) \<le> unat (key_size ctx)"
    and cap: "unat (key_size ctx) \<le> length (dst st1)"
  shows "pkcs1pad_encrypt_sign_complete ctx st1 0 =
    Some (0, st1\<lparr>dst := replicate (unat (key_size ctx) - unat (c_dst_len (child_req st1))) 0 @
                       take (unat (c_dst_len (child_req st1))) ob @
                       drop (unat (key_size ctx)) (dst st1),
                dst_len := key_size ctx, in_buf := None, out_buf := None,
                trace := trace st1 @ [Kfree, Kzfree]\<rparr>)"
proof -
  let ?k = "key_size ctx" and ?dl = "c_dst_len (child_req st1)"
  define pad where "pad = unat ?k - unat ?dl"
  have p: "unat (?k - ?dl) = pad"
    unfolding pad_def using u by unat_arith
  have pz: "?k - ?dl \<noteq> 0 \<longleftrightarrow> pad \<noteq> 0"
    using p by (metis unat_eq_0)
  have ms: "(if ?k - ?dl \<noteq> 0 then memset (dst st1) 0 0 pad else Some (dst st1)) =
      Some (replicate pad 0 @ drop pad (dst st1))"
    using cap by (auto simp: pz memset_def pad_def)
  have pc: "sg_pcopy_from_buffer (replicate pad 0 @ drop pad (dst st1)) ob (unat ?dl) pad =
      Some (replicate pad 0 @ take (unat ?dl) ob @ drop (unat ?k) (dst st1))"
  proof -
    have "min (unat ?dl) (length (replicate pad (0::u8) @ drop pad (dst st1)) - pad) = unat ?dl"
      using cap u by (simp add: pad_def)
    moreover have "pad + unat ?dl = unat ?k"
      using u by (simp add: pad_def)
    ultimately show ?thesis
      using u lob by (simp add: sg_pcopy_from_buffer_def Let_def)
  qed
  have b: "Option.bind
      (if ?k - ?dl \<noteq> 0 then memset (dst st1) 0 0 (unat (?k - ?dl)) else Some (dst st1))
      (\<lambda>d. case out_buf st1 of None \<Rightarrow> None
            | Some out \<Rightarrow> sg_pcopy_from_buffer d out (unat ?dl) (unat (?k - ?dl))) =
      Some (replicate pad 0 @ take (unat ?dl) ob @ drop (unat ?k) (dst st1))"
    by (simp only: p ms ob pc Option.bind.simps option.case)
  show ?thesis
    unfolding pkcs1pad_encrypt_sign_complete_def Let_def b
    by (simp add: pad_def)
qed

lemma encrypt_sign_complete_code:
  "pkcs1pad_encrypt_sign_complete ctx s e = Some (e', s') \<Longrightarrow> e' = e"
  by (auto simp: pkcs1pad_encrypt_sign_complete_def Let_def split: option.splits)

lemma encrypt_success:
  assumes enc: "pkcs1pad_encrypt env A ctx req = Some (0, st)"
  shows "\<exists>st0. pkcs1pad_encrypt_setup env ctx req = Ready st0 \<and>
           r_err (crypto_akcipher_encrypt A (child ctx) (child_req st0)) = 0 \<and>
           pkcs1pad_encrypt_sign_complete ctx
             (child_done st0 Encrypt (crypto_akcipher_encrypt A (child ctx) (child_req st0))) 0 =
             Some (0, st)"
proof (cases "pkcs1pad_encrypt_setup env ctx req")
  case Crash
  then show ?thesis
    using enc by (simp add: pkcs1pad_encrypt_def)
next
  case (Early e s)
  then show ?thesis
    using enc encrypt_setup_Early [OF Early] by (simp add: pkcs1pad_encrypt_def)
next
  case (Ready st0)
  let ?reply = "crypto_akcipher_encrypt A (child ctx) (child_req st0)"
  let ?st1 = "child_done st0 Encrypt ?reply"
  have c: "pkcs1pad_encrypt_sign_complete ctx ?st1 (r_err ?reply) = Some (0, st)"
    using enc by (auto simp: pkcs1pad_encrypt_def Ready Let_def errno_defs split: if_splits)
  then have "r_err ?reply = 0"
    using encrypt_sign_complete_code by fastforce
  then show ?thesis
    using c Ready by simp
qed

lemma test_alg_inverts: "child_inverts (test_alg 0) c 16"
  by (auto simp: child_inverts_def test_alg_def)

text \<open>
  Claim C2. With a key of \<open>k\<close> bytes and a plaintext of at most \<open>k - 11\<close> bytes: when
  encrypt has returned 0 and the inner engine's decrypt inverts its encrypt
  (\<open>child_inverts\<close>), decrypt on the \<open>dst_len\<close> bytes that encrypt left in its
  destination returns 0, sets \<open>dst_len\<close> to the length of the plaintext and stores
  the plaintext at the start of its destination. The decrypt request is one that can
  succeed: its destination has room for the plaintext and its buffer is allocated.
\<close>

theorem encrypt_decrypt_roundtrip:
  fixes ctx :: "'c pkcs1pad_ctx"
  assumes pt: "unat (src_len req) + 11 \<le> unat (key_size ctx)"
    and src: "length (src req) = unat (src_len req)"
    and dcap: "unat (dst_len req) \<le> length (dst req)"
    and enc: "pkcs1pad_encrypt env A ctx req = Some (0, st)"
    and inv: "child_inverts A (child ctx) (key_size ctx)"
    and dsrc: "src dreq = take (unat (dst_len st)) (dst st)" "src_len dreq = dst_len st"
    and room: "unat (src_len req) \<le> unat (dst_len dreq)"
      "unat (dst_len dreq) \<le> length (dst dreq)"
    and alloc: "kmalloc_ok env (length (trace dreq)) (unat (key_size ctx))
      (gfp_of (base_flags dreq))"
  shows "\<exists>st'. pkcs1pad_decrypt env A ctx dreq = Some (0, st') \<and>
           dst_len st' = src_len req \<and> take (unat (src_len req)) (dst st') = src req"
proof -
  let ?k = "key_size ctx"
  define K where "K = unat ?k"
  define L where "L = unat (src_len req)"
  define ps where "ps = random_ps env (K - 3 - L)"
  have KL: "L + 11 \<le> K"
    using pt by (simp add: K_def L_def)
  have k0: "?k \<noteq> 0"
    using KL by (auto simp: K_def)
  obtain st0 where r: "pkcs1pad_encrypt_setup env ctx req = Ready st0"
    and e0: "r_err (crypto_akcipher_encrypt A (child ctx) (child_req st0)) = 0"
    and c: "pkcs1pad_encrypt_sign_complete ctx
        (child_done st0 Encrypt (crypto_akcipher_encrypt A (child ctx) (child_req st0))) 0 =
        Some (0, st)"
    using encrypt_success [OF enc] by blast
  have pt3: "unat (src_len req) + 3 \<le> unat ?k"
    using pt by simp
  note R = encrypt_setup_Ready [OF r pt3, folded K_def L_def, folded ps_def]
  define er where "er = child_req st0"
  define reply where "reply = crypto_akcipher_encrypt A (child ctx) er"
  define st1 where "st1 = child_done st0 Encrypt reply"
  define U where "U = unat (r_dst_len reply)"
  have er: "c_src er = (0x02 # ps @ [0x00]) @ src req" "c_src_len er = ?k - 1" "c_dst_len er = ?k"
    by (simp_all add: er_def R(1))
  have ler: "length (c_src er) = K - 1"
    using KL src by (simp add: er(1) ps_def L_def)
  have e0': "r_err (crypto_akcipher_encrypt A (child ctx) er) = 0"
    using e0 by (simp only: er_def)
  have I: "U \<le> K \<and> U \<le> length (r_out reply) \<and>
      (\<forall>dr. c_src dr = replicate (K - U) 0 @ take U (r_out reply) \<and>
            c_src_len dr = ?k \<and> c_dst_len dr = ?k \<longrightarrow>
         r_err (crypto_akcipher_decrypt A (child ctx) dr) = 0 \<and>
         r_dst_len (crypto_akcipher_decrypt A (child ctx) dr) = ?k - 1 \<and>
         take (K - 1) (r_out (crypto_akcipher_decrypt A (child ctx) dr)) = c_src er)"
    using inv [unfolded child_inverts_def, rule_format, of er] ler er(2,3) e0'
    unfolding K_def U_def reply_def by blast
  define G where "G = map (heap_garbage env (Suc (length (trace req)))) [0..<K]"
  define ob where "ob = take K (r_out reply @ drop (length (r_out reply)) G)"
  have ob1: "out_buf st1 = Some ob"
    by (simp add: st1_def child_done_def R(1) ob_def G_def K_def)
  have lob: "length ob = unat ?k"
    by (simp add: ob_def G_def K_def)
  have dl1: "c_dst_len (child_req st1) = r_dst_len reply"
    by (simp add: st1_def child_done_def)
  have d1: "dst st1 = dst req"
    by (simp add: st1_def child_done_def R(1))
  have cap: "unat ?k \<le> length (dst st1)"
    using R(2) dcap by (simp add: d1 word_le_nat_alt)
  have u: "unat (c_dst_len (child_req st1)) \<le> unat ?k"
    using I by (simp add: dl1 U_def K_def)
  have c': "pkcs1pad_encrypt_sign_complete ctx st1 0 = Some (0, st)"
    using c by (simp only: st1_def reply_def er_def)
  have tob: "take U ob = take U (r_out reply)"
    using I by (simp add: ob_def min_def)
  have st: "dst_len st = ?k" "dst st = replicate (K - U) 0 @ take U (r_out reply) @ drop K (dst req)"
    using c' encrypt_sign_complete_ok [OF ob1 lob u cap]
    by (auto simp: dl1 d1 U_def [symmetric] K_def [symmetric] tob)
  have tk: "take K (dst st) = replicate (K - U) 0 @ take U (r_out reply)"
    using I by (simp add: st(2))
  define dr where "dr = \<lparr>c_src = src dreq, c_src_len = ?k, c_dst_len = ?k,
      c_flags = base_flags dreq\<rparr>"
  have "c_src dr = replicate (K - U) 0 @ take U (r_out reply) \<and> c_src_len dr = ?k \<and>
      c_dst_len dr = ?k"
    by (simp add: dr_def dsrc(1) st(1) K_def [symmetric] tk)
  then have D: "r_err (crypto_akcipher_decrypt A (child ctx) dr) = 0"
      "r_dst_len (crypto_akcipher_decrypt A (child ctx) dr) = ?k - 1"
      "take (unat ?k - 1) (r_out (crypto_akcipher_decrypt A (child ctx) dr)) =
        (0x02 # ps @ [0x00]) @ src req"
    using I by (simp_all add: er(1) K_def)
  have sl: "src_len dreq = ?k"
    by (simp add: dsrc(2) st(1))
  have nz: "0 \<notin> set ps"
    unfolding ps_def by (rule random_ps_nonzero)
  have l8: "8 \<le> length ps"
    using KL by (simp add: ps_def)
  have tot: "length ps + length (src req) + 2 = unat ?k - 1"
    using KL src by (simp add: ps_def L_def K_def)
  have room': "length (src req) \<le> unat (dst_len dreq)"
    using room(1) src by simp
  have page: "unat ?k \<le> PAGE_SIZE env"
    using R(3) by (simp only: K_def)
  have rep: "crypto_akcipher_decrypt A (child ctx) dr =
      crypto_akcipher_decrypt A (child ctx)
        \<lparr>c_src = src dreq, c_src_len = ?k, c_dst_len = ?k, c_flags = base_flags dreq\<rparr>"
    by (simp only: dr_def)
  obtain st' where d: "pkcs1pad_decrypt env A ctx dreq = Some (0, st')"
    and l: "unat (dst_len st') = length (src req)"
    and p: "take (length (src req)) (dst st') = src req"
    using decrypt_block [OF k0 sl page alloc rep D(1,2,3) nz l8 tot room' room(2)]
    by blast
  have "dst_len st' = src_len req"
    using l src by (simp add: word_unat_eq_iff)
  then show ?thesis
    using d p src by auto
qed

theorem encrypt_decrypt_roundtrip_witness:
  "unat (src_len (test_req [0x41, 0x42, 0x43] 16 0)) + 11 \<le> unat (key_size (test_ctx 16 None)) \<and>
   map_option fst (pkcs1pad_encrypt test_env (test_alg 0) (test_ctx 16 None)
      (test_req [0x41, 0x42, 0x43] 16 0)) = Some 0 \<and>
   map_option (dst \<circ> snd) (pkcs1pad_encrypt test_env (test_alg 0) (test_ctx 16 None)
      (test_req [0x41, 0x42, 0x43] 16 0)) =
     Some [0x00, 0x02, 2, 159, 62, 219, 122, 25, 182, 85, 242, 145, 0x00, 0x41, 0x42, 0x43] \<and>
   child_inverts (test_alg 0) (child (test_ctx 16 None)) (key_size (test_ctx 16 None)) \<and>
   map_option fst (pkcs1pad_decrypt test_env (test_alg 0) (test_ctx 16 None)
      (test_req [0x00, 0x02, 2, 159, 62, 219, 122, 25, 182, 85, 242, 145, 0x00, 0x41, 0x42, 0x43]
         16 0)) = Some 0 \<and>
   map_option (dst_len \<circ> snd) (pkcs1pad_decrypt test_env (test_alg 0) (test_ctx 16 None)
      (test_req [0x00, 0x02, 2, 159, 62, 219, 122, 25, 182, 85, 242, 145, 0x00, 0x41, 0x42, 0x43]
         16 0)) = Some 3 \<and>
   map_option (take 3 \<circ> dst \<circ> snd) (pkcs1pad_decrypt test_env (test_alg 0) (test_ctx 16 None)
      (test_req [0x00, 0x02, 2, 159, 62, 219, 122, 25, 182, 85, 242, 145, 0x00, 0x41, 0x42, 0x43]
         16 0)) = Some [0x41, 0x42, 0x43]"
proof -
  let ?C = "test_ctx 16 None" and ?R = "test_req [0x41, 0x42, 0x43] 16 0"
  let ?X = "[0x00, 0x02, 2, 159, 62, 219, 122, 25, 182, 85, 242, 145, 0x00, 0x41, 0x42, 0x43] :: u8 list"
  let ?D = "test_req ?X 16 0"
  obtain st where enc: "pkcs1pad_encrypt test_env (test_alg 0) ?C ?R = Some (0, st)"
    and dst: "dst st = ?X" and dl: "dst_len st = 16"
    by (simp add: pkcs1pad_encrypt_def pkcs1pad_encrypt_setup_def
        pkcs1pad_encrypt_sign_complete_def test_defs eval_defs errno_defs fill_ps.simps upt_rec)
  have pt: "unat (src_len ?R) + 11 \<le> unat (key_size ?C)"
    by (simp add: test_defs)
  have src: "length (src ?R) = unat (src_len ?R)"
    by (simp add: test_defs)
  have dcap: "unat (dst_len ?R) \<le> length (dst ?R)"
    by (simp add: test_defs)
  have inv: "child_inverts (test_alg 0) (child ?C) (key_size ?C)"
    using test_alg_inverts by (simp add: test_ctx_def)
  have dsrc: "src ?D = take (unat (dst_len st)) (dst st)" "src_len ?D = dst_len st"
    by (simp_all add: dst dl test_defs)
  have room: "unat (src_len ?R) \<le> unat (dst_len ?D)" "unat (dst_len ?D) \<le> length (dst ?D)"
    by (simp_all add: test_defs)
  have alloc: "kmalloc_ok test_env (length (trace ?D)) (unat (key_size ?C))
      (gfp_of (base_flags ?D))"
    by (simp add: test_defs)
  obtain st' where "pkcs1pad_decrypt test_env (test_alg 0) ?C ?D = Some (0, st')"
    and "dst_len st' = src_len ?R" and "take (unat (src_len ?R)) (dst st') = src ?R"
    using encrypt_decrypt_roundtrip [OF pt src dcap enc inv dsrc room alloc] by blast
  then show ?thesis
    using pt enc dst inv by (simp add: test_req_def)
qed

end
